theory Spec2Isabelle
  imports Complex_Main
begin

section \<open>Errors and dense vectors\<close>

text \<open>
  The notebooks compute with NumPy arrays of floats. The development idealises a float as
  a \<^typ>\<open>real\<close> (exact arithmetic) and a one-dimensional array as a list. Every
  \<^verbatim>\<open>ValueError\<close> the code can raise is a value of \<open>error\<close>: a shape mismatch in a
  product, or a failed tuple unpacking. A division by zero, a name that is bound nowhere and
  a value of the wrong kind are error values as well.
\<close>

datatype error = DimensionMismatch | UnpackError | ZeroDivisionError | NameError | TypeError

type_synonym vec = "real list"

definition vadd :: "vec \<Rightarrow> vec \<Rightarrow> vec" where
  "vadd u v = map2 (+) u v"

definition vsub :: "vec \<Rightarrow> vec \<Rightarrow> vec" where
  "vsub u v = map2 (-) u v"

definition smul :: "real \<Rightarrow> vec \<Rightarrow> vec" where
  "smul a v = map ((*) a) v"

definition vdot :: "vec \<Rightarrow> vec \<Rightarrow> real" where
  "vdot u v = sum_list (map2 (*) u v)"

section \<open>Sparse matrices\<close>

text \<open>
  Modelled from the spec: the sparse matrix type of \<^verbatim>\<open>scipy.sparse\<close> is not part of the
  sources. Section 3 of the specification describes it as a shape with coordinate triples
  (row, column, value), where duplicate positions add up; it offers the shape, the transpose
  and the matrix-vector product, and the product fails on a vector of the wrong length.
\<close>

record sparse_matrix =
  nrows :: nat
  ncols :: nat
  entries :: "(nat \<times> nat \<times> real) list"

text \<open>
  \<^verbatim>\<open>scipy.sparse\<close> refuses to build a matrix with a position outside its shape; the
  matrices the code can hold are the well-formed ones.
\<close>

definition wf_sparse :: "sparse_matrix \<Rightarrow> bool" where
  "wf_sparse X = list_all (\<lambda>(r, c, v). r < nrows X \<and> c < ncols X) (entries X)"

text \<open>
  Modelled from the spec: \<^verbatim>\<open>X.T\<close> and \<^verbatim>\<open>X.dot(w)\<close> of a sparse matrix, section 3
  (transpose and matrix-vector product; the product of an \<open>m \<times> n\<close> matrix needs a vector
  of length \<open>n\<close>, gives one of length \<open>m\<close>, and fails with a dimension mismatch
  otherwise).
\<close>

definition sparse_T :: "sparse_matrix \<Rightarrow> sparse_matrix" where
  "sparse_T X = \<lparr>nrows = ncols X, ncols = nrows X,
                 entries = map (\<lambda>(r, c, v). (c, r, v)) (entries X)\<rparr>"

definition row_sum :: "(nat \<times> nat \<times> real) list \<Rightarrow> vec \<Rightarrow> nat \<Rightarrow> real" where
  "row_sum es w i = sum_list (map (\<lambda>(r, c, v). if r = i then v * w ! c else 0) es)"

definition sparse_dot :: "sparse_matrix \<Rightarrow> vec \<Rightarrow> error + vec" where
  "sparse_dot X w =
     (if length w \<noteq> ncols X then Inl DimensionMismatch
      else Inr (map (row_sum (entries X) w) [0..<nrows X]))"

text \<open>The logical dense matrix a sparse matrix denotes: duplicate positions add up.\<close>

definition entry :: "sparse_matrix \<Rightarrow> nat \<Rightarrow> nat \<Rightarrow> real" where
  "entry X i j = sum_list (map (\<lambda>(r, c, v). if r = i \<and> c = j then v else 0) (entries X))"

text \<open>
  \<^verbatim>\<open>sparse.csr_matrix(rows)\<close> of a dense array given by its rows keeps the non-zero
  entries.
\<close>

definition csr_matrix :: "real list list \<Rightarrow> sparse_matrix" where
  "csr_matrix rows =
     (let m = length rows; n = (case rows of [] \<Rightarrow> 0 | r # _ \<Rightarrow> length r)
      in \<lparr>nrows = m, ncols = n,
          entries = concat (map (\<lambda>i. concat (map (\<lambda>j. if rows ! i ! j \<noteq> 0
                                                        then [(i, j, rows ! i ! j)] else [])
                                                  [0..<n]))
                                [0..<m])\<rparr>)"

section \<open>The matrix-vector product of the ridge system\<close>

text \<open>
  \<^verbatim>\<open>def matvec(w): return X.T.dot(X.dot(w)) + alpha * w\<close>

  The notebook defines this function twice with the same body: at module level, closing over
  the module's \<^verbatim>\<open>X\<close> and \<^verbatim>\<open>alpha\<close>, and inside \<^verbatim>\<open>sparse_ridge\<close>, closing over
  the driver's parameters. The captured variables are explicit arguments here. Both summands
  have \<open>ncols X\<close> entries whenever the two products succeed. The sums and products are
  those of the real numbers; the section on float64 arithmetic has the same expression
  with the rounding of the code.
\<close>

definition matvec :: "sparse_matrix \<Rightarrow> real \<Rightarrow> vec \<Rightarrow> error + vec" where
  "matvec X alpha w =
     (case sparse_dot X w of
        Inl e \<Rightarrow> Inl e
      | Inr Xw \<Rightarrow>
          (case sparse_dot (sparse_T X) Xw of
             Inl e \<Rightarrow> Inl e
           | Inr XtXw \<Rightarrow> Inr (vadd XtXw (smul alpha w))))"

section \<open>Linear operators\<close>

text \<open>
  \<^verbatim>\<open>A = LinearOperator((n_features, n_features), matvec=matvec, dtype=X.dtype)\<close>

  The operator pairs a declared shape with the function that computes the product; no matrix
  is stored.
\<close>

record linear_operator =
  shape :: "nat \<times> nat"
  op_matvec :: "vec \<Rightarrow> error + vec"

definition LinearOperator :: "nat \<times> nat \<Rightarrow> (vec \<Rightarrow> error + vec) \<Rightarrow> linear_operator" where
  "LinearOperator s f = \<lparr>shape = s, op_matvec = f\<rparr>"

text \<open>
  Modelled from the spec: the class \<^verbatim>\<open>LinearOperator\<close> is imported from
  \<^verbatim>\<open>scipy.sparse.linalg\<close>, its code is not part of the sources. Section 4.1: the
  operator exposes \<open>apply(w)\<close>, which requires \<open>len(w) == n\<close>, produces \<open>f(w)\<close> and
  fails with \<open>DimensionMismatch\<close> if \<open>len(w) != n\<close>.
\<close>

definition op_apply :: "linear_operator \<Rightarrow> vec \<Rightarrow> error + vec" where
  "op_apply A w = (if length w \<noteq> snd (shape A) then Inl DimensionMismatch else op_matvec A w)"

section \<open>The conjugate gradient solver\<close>

datatype status = Converged | Breakdown | MaxIterReached

text \<open>
  Modelled from the spec: the solver \<^verbatim>\<open>scipy.sparse.linalg.cg\<close> is a library routine,
  its code is not part of the sources. The definitions follow section 4.2 of the
  specification step by step: the start from \<open>x0\<close> or the zero vector, the residual, and a
  loop of at most \<open>max_iter\<close> rounds that ends with one of three statuses. The loop also
  counts the rounds it has completed; the count is returned next to the result. The
  division \<open>rs_new / rs_old\<close> has no guard in the specification, so a zero divisor
  is an error here.
\<close>

fun cg_loop :: "linear_operator \<Rightarrow> real \<Rightarrow> nat \<Rightarrow> nat \<Rightarrow> vec \<Rightarrow> vec \<Rightarrow> vec \<Rightarrow> real \<Rightarrow>
    (error + vec \<times> status) \<times> nat" where
  "cg_loop A tol 0 it x r p rs_old = (Inr (x, MaxIterReached), it)"
| "cg_loop A tol (Suc k) it x r p rs_old =
     (case op_apply A p of
        Inl e \<Rightarrow> (Inl e, it)
      | Inr Ap \<Rightarrow>
          (let pAp = vdot p Ap in
           if pAp \<le> 0 then (Inr (x, Breakdown), it)
           else
             (let alpha = rs_old / pAp;
                  x' = vadd x (smul alpha p);
                  r' = vsub r (smul alpha Ap);
                  rs_new = vdot r' r'
              in if sqrt rs_new < tol then (Inr (x', Converged), Suc it)
                 else if rs_old = 0 then (Inl ZeroDivisionError, Suc it)
                 else
                   (let beta = rs_new / rs_old;
                        p' = vadd r' (smul beta p)
                    in cg_loop A tol k (Suc it) x' r' p' rs_new))))"

text \<open>
  Modelled from the spec: the entry point of the solver, section 4.2, contract and steps
  1 and 2. The right-hand side must be as long as the operator's dimension; the start is
  \<open>x0\<close> if given, else the zero vector. \<open>solve\<close> is the contract's pair of a solution and
  a status, without the count.
\<close>

definition initial_guess :: "nat \<Rightarrow> vec option \<Rightarrow> vec" where
  "initial_guess n x0 = (case x0 of Some x1 \<Rightarrow> x1 | None \<Rightarrow> replicate n 0)"

definition solve_iters :: "linear_operator \<Rightarrow> vec \<Rightarrow> vec option \<Rightarrow> real \<Rightarrow> int \<Rightarrow>
    (error + vec \<times> status) \<times> nat" where
  "solve_iters A b x0 tol max_iter =
     (if length b \<noteq> snd (shape A) then (Inl DimensionMismatch, 0)
      else
        (let x = initial_guess (snd (shape A)) x0
         in case op_apply A x of
              Inl e \<Rightarrow> (Inl e, 0)
            | Inr Ax \<Rightarrow>
                (let r = vsub b Ax; p = r; rs_old = vdot r r
                 in cg_loop A tol (nat max_iter) 0 x r p rs_old)))"

definition solve :: "linear_operator \<Rightarrow> vec \<Rightarrow> vec option \<Rightarrow> real \<Rightarrow> int \<Rightarrow> error + vec \<times> status" where
  "solve A b x0 tol max_iter = fst (solve_iters A b x0 tol max_iter)"

text \<open>
  The drivers call the solver as \<^verbatim>\<open>cg(A, b, x0=x0)\<close> and leave the tolerance and
  the iteration budget at fixed values: the solver of section 4.2 as a function of the
  three arguments that the drivers pass.
\<close>

definition cg_with :: "real \<Rightarrow> int \<Rightarrow> linear_operator \<Rightarrow> vec \<Rightarrow> vec option \<Rightarrow> error + vec \<times> status" where
  "cg_with tol max_iter A b x0 = solve A b x0 tol max_iter"

section \<open>The ridge drivers\<close>

text \<open>
  \<^verbatim>\<open>
  def sparse_ridge(X, y, alpha=0., x0=None):
      n_features = X.shape[1]
      def matvec(w):
          return X.T.dot(X.dot(w)) + alpha * w
      A = LinearOperator((n_features, n_features),
                         matvec=matvec, dtype=X.dtype)
      w_hat, info = sparse.linalg.cg(A, X.T.dot(y), x0=x0)
      return w_hat
  \<close>
  The solver is a parameter \<open>cg\<close> of the model: any function from the operator, the
  right-hand side and the optional start to an error or a pair of a solution and a status.
\<close>

definition ridge_operator :: "sparse_matrix \<Rightarrow> real \<Rightarrow> linear_operator" where
  "ridge_operator X alpha =
     (let n_features = ncols X
      in LinearOperator (n_features, n_features) (matvec X alpha))"

definition sparse_ridge ::
    "(linear_operator \<Rightarrow> vec \<Rightarrow> vec option \<Rightarrow> error + vec \<times> 'i) \<Rightarrow>
     sparse_matrix \<Rightarrow> vec \<Rightarrow> real \<Rightarrow> vec option \<Rightarrow> error + vec" where
  "sparse_ridge cg X y alpha x0 =
     (let A = ridge_operator X alpha
      in case sparse_dot (sparse_T X) y of
           Inl e \<Rightarrow> Inl e
         | Inr b \<Rightarrow>
             (case cg A b x0 of
                Inl e \<Rightarrow> Inl e
              | Inr (w_hat, info) \<Rightarrow> Inr w_hat))"

text \<open>
  \<^verbatim>\<open>
  def sparse_ridge_intercept(Xb, y, alpha=0., x0=None):
      n_features = Xb.shape[1] - 1
      def matvec(w):
          alpha_diag = np.zeros(n_features + 1)
          alpha_diag[:n_features] = alpha
          return Xb.T.dot(Xb.dot(w)) + np.diag(alpha_diag) @ w
      A = LinearOperator((n_features + 1, n_features + 1),
                         matvec=matvec, dtype=Xb.dtype)
      (w_hat, b_hat), info = sparse.linalg.cg(A, Xb.T.dot(y), x0=x0)
      return w_hat, b_hat
  \<close>
  \<open>n_features\<close> is a Python integer, \<open>-1\<close> for a matrix without columns. \<open>np.diag\<close> of
  a vector is the square matrix with that diagonal, and the product with it fails on a
  vector of another length. The pattern \<open>(w_hat, b_hat)\<close> unpacks a solution of exactly two
  entries and raises on any other length.
\<close>

definition np_diag :: "vec \<Rightarrow> real list list" where
  "np_diag d = map (\<lambda>i. map (\<lambda>j. if i = j then d ! i else 0) [0..<length d]) [0..<length d]"

definition np_matmul :: "real list list \<Rightarrow> vec \<Rightarrow> error + vec" where
  "np_matmul M w =
     (if length w \<noteq> length M then Inl DimensionMismatch
      else Inr (map (\<lambda>row. vdot row w) M))"

definition alpha_diag :: "int \<Rightarrow> real \<Rightarrow> vec" where
  "alpha_diag n_features alpha =
     map (\<lambda>i. if int i < n_features then alpha else 0) [0..<nat (n_features + 1)]"

definition intercept_matvec :: "sparse_matrix \<Rightarrow> real \<Rightarrow> int \<Rightarrow> vec \<Rightarrow> error + vec" where
  "intercept_matvec Xb alpha n_features w =
     (case sparse_dot Xb w of
        Inl e \<Rightarrow> Inl e
      | Inr Xw \<Rightarrow>
          (case sparse_dot (sparse_T Xb) Xw of
             Inl e \<Rightarrow> Inl e
           | Inr XtXw \<Rightarrow>
               (case np_matmul (np_diag (alpha_diag n_features alpha)) w of
                  Inl e \<Rightarrow> Inl e
                | Inr dw \<Rightarrow> Inr (vadd XtXw dw))))"

definition intercept_operator :: "sparse_matrix \<Rightarrow> real \<Rightarrow> linear_operator" where
  "intercept_operator Xb alpha =
     (let n_features = int (ncols Xb) - 1
      in LinearOperator (nat (n_features + 1), nat (n_features + 1))
           (intercept_matvec Xb alpha n_features))"

definition sparse_ridge_intercept ::
    "(linear_operator \<Rightarrow> vec \<Rightarrow> vec option \<Rightarrow> error + vec \<times> 'i) \<Rightarrow>
     sparse_matrix \<Rightarrow> vec \<Rightarrow> real \<Rightarrow> vec option \<Rightarrow> error + real \<times> real" where
  "sparse_ridge_intercept cg Xb y alpha x0 =
     (let A = intercept_operator Xb alpha
      in case sparse_dot (sparse_T Xb) y of
           Inl e \<Rightarrow> Inl e
         | Inr b \<Rightarrow>
             (case cg A b x0 of
                Inl e \<Rightarrow> Inl e
              | Inr (sol, info) \<Rightarrow>
                  (case sol of
                     [w_hat, b_hat] \<Rightarrow> Inr (w_hat, b_hat)
                   | _ \<Rightarrow> Inl UnpackError)))"

section \<open>Names and scopes\<close>

text \<open>
  The notebook keeps \<^verbatim>\<open>X\<close>, \<^verbatim>\<open>y\<close>, \<^verbatim>\<open>alpha\<close>, \<^verbatim>\<open>n_features\<close>, \<^verbatim>\<open>matvec\<close>,
  \<^verbatim>\<open>A\<close> and \<^verbatim>\<open>w_hat\<close> as module-level variables and rebinds them from cell to cell.
  A scope maps names to values. Python looks a name up in the scope of the function that
  runs, then in the scopes of the functions that enclose it, then in the module; a name
  bound in none of them raises \<open>NameError\<close>. Parameters and assigned names are bound in the
  function's own scope. The two imported names \<^verbatim>\<open>LinearOperator\<close> and \<^verbatim>\<open>sparse\<close> are
  never rebound by the notebook and stay constants of the model (the solver a parameter).
\<close>

datatype 'i pyval =
    PyMatrix sparse_matrix
  | PyFloat real
  | PyArray vec
  | PyInt int
  | PyNone
  | PyFunction "vec \<Rightarrow> error + vec"
  | PyOperator linear_operator
  | PyStatus 'i

type_synonym 'i scope = "string \<Rightarrow> 'i pyval option"

definition lookup :: "'i scope \<Rightarrow> 'i scope \<Rightarrow> string \<Rightarrow> error + 'i pyval" where
  "lookup locals globals name =
     (case locals name of
        Some v \<Rightarrow> Inr v
      | None \<Rightarrow> (case globals name of Some v \<Rightarrow> Inr v | None \<Rightarrow> Inl NameError))"

definition then_do :: "error + 'a \<Rightarrow> ('a \<Rightarrow> error + 'b) \<Rightarrow> error + 'b" where
  "then_do r f = (case r of Inl e \<Rightarrow> Inl e | Inr a \<Rightarrow> f a)"

definition as_matrix :: "'i pyval \<Rightarrow> error + sparse_matrix" where
  "as_matrix v = (case v of PyMatrix X \<Rightarrow> Inr X | _ \<Rightarrow> Inl TypeError)"

definition as_float :: "'i pyval \<Rightarrow> error + real" where
  "as_float v = (case v of PyFloat a \<Rightarrow> Inr a | _ \<Rightarrow> Inl TypeError)"

definition as_array :: "'i pyval \<Rightarrow> error + vec" where
  "as_array v = (case v of PyArray w \<Rightarrow> Inr w | _ \<Rightarrow> Inl TypeError)"

definition as_optional_array :: "'i pyval \<Rightarrow> error + vec option" where
  "as_optional_array v =
     (case v of PyArray w \<Rightarrow> Inr (Some w) | PyNone \<Rightarrow> Inr None | _ \<Rightarrow> Inl TypeError)"

definition as_int :: "'i pyval \<Rightarrow> error + int" where
  "as_int v = (case v of PyInt n \<Rightarrow> Inr n | _ \<Rightarrow> Inl TypeError)"

definition as_function :: "'i pyval \<Rightarrow> error + (vec \<Rightarrow> error + vec)" where
  "as_function v = (case v of PyFunction f \<Rightarrow> Inr f | _ \<Rightarrow> Inl TypeError)"

definition as_operator :: "'i pyval \<Rightarrow> error + linear_operator" where
  "as_operator v = (case v of PyOperator A \<Rightarrow> Inr A | _ \<Rightarrow> Inl TypeError)"

text \<open>
  \<^verbatim>\<open>def matvec(w): return X.T.dot(X.dot(w)) + alpha * w\<close>

  The body of both definitions of \<^verbatim>\<open>matvec\<close>, with every name looked up: \<^verbatim>\<open>w\<close> is the
  parameter, \<^verbatim>\<open>X\<close> and \<^verbatim>\<open>alpha\<close> come from the enclosing scope or from the module. The
  module-level function has no enclosing scope; the one inside \<^verbatim>\<open>sparse_ridge\<close> is
  enclosed by the scope of that call.
\<close>

definition matvec_body :: "'i scope \<Rightarrow> 'i scope \<Rightarrow> vec \<Rightarrow> error + vec" where
  "matvec_body enclosing globals w =
     (let locals = enclosing(''w'' \<mapsto> PyArray w)
      in then_do (then_do (lookup locals globals ''X'') as_matrix) (\<lambda>X.
         then_do (then_do (lookup locals globals ''w'') as_array) (\<lambda>w1.
         then_do (then_do (lookup locals globals ''alpha'') as_float) (\<lambda>alpha.
         matvec X alpha w1))))"


section \<open>Float64 arithmetic\<close>

text \<open>
  NumPy computes in IEEE double precision: the result of every sum and product is rounded
  to the nearest number with a 53-bit significand, a tie going to the even significand.
  \<open>round64\<close> is this rounding for magnitudes in the normal range of the doubles;
  overflow to infinity and subnormal numbers are not covered.
\<close>

definition round_half_even :: "real \<Rightarrow> int" where
  "round_half_even x =
     (let f = \<lfloor>x\<rfloor>; d = x - of_int f
      in if d < 1 / 2 then f else if 1 / 2 < d then f + 1 else if even f then f else f + 1)"

definition round64 :: "real \<Rightarrow> real" where
  "round64 x =
     (if x = 0 then 0
      else (let e = \<lfloor>log 2 \<bar>x\<bar>\<rfloor> - 52
            in of_int (round_half_even (x / 2 powi e)) * 2 powi e))"

text \<open>
  The expression of \<^verbatim>\<open>matvec\<close> once more, with a rounding \<open>rnd\<close> applied to the result of
  every sum and product, as float arithmetic does. \<open>scipy\<close> accumulates the entries of a
  row from zero in the order in which they are stored. With the identity for \<open>rnd\<close> this
  is \<open>matvec\<close>, and with \<open>round64\<close> it is the arithmetic of the code.
\<close>

definition fl_vadd :: "(real \<Rightarrow> real) \<Rightarrow> vec \<Rightarrow> vec \<Rightarrow> vec" where
  "fl_vadd rnd u v = map2 (\<lambda>x y. rnd (x + y)) u v"

definition fl_smul :: "(real \<Rightarrow> real) \<Rightarrow> real \<Rightarrow> vec \<Rightarrow> vec" where
  "fl_smul rnd a v = map (\<lambda>x. rnd (a * x)) v"

definition fl_row_sum :: "(real \<Rightarrow> real) \<Rightarrow> (nat \<times> nat \<times> real) list \<Rightarrow> vec \<Rightarrow> nat \<Rightarrow> real" where
  "fl_row_sum rnd es w i =
     foldl (\<lambda>acc (r, c, v). if r = i then rnd (acc + rnd (v * w ! c)) else acc) 0 es"

definition fl_sparse_dot :: "(real \<Rightarrow> real) \<Rightarrow> sparse_matrix \<Rightarrow> vec \<Rightarrow> error + vec" where
  "fl_sparse_dot rnd X w =
     (if length w \<noteq> ncols X then Inl DimensionMismatch
      else Inr (map (fl_row_sum rnd (entries X) w) [0..<nrows X]))"

definition fl_matvec :: "(real \<Rightarrow> real) \<Rightarrow> sparse_matrix \<Rightarrow> real \<Rightarrow> vec \<Rightarrow> error + vec" where
  "fl_matvec rnd X alpha w =
     (case fl_sparse_dot rnd X w of
        Inl e \<Rightarrow> Inl e
      | Inr Xw \<Rightarrow>
          (case fl_sparse_dot rnd (sparse_T X) Xw of
             Inl e \<Rightarrow> Inl e
           | Inr XtXw \<Rightarrow> Inr (fl_vadd rnd XtXw (fl_smul rnd alpha w))))"

section \<open>The recurrence behind the solver's loop\<close>

text \<open>
  For the analysis of the solver: the value of the operator's function on a vector, the
  hypothesis "symmetric positive-definite operator of dimension \<open>n\<close>" of section 4.2
  (the function is defined on the vectors of length \<open>n\<close>, keeps their length, and is
  linear, symmetric and positive definite with respect to the dot product), and one round
  of the loop of section 4.2 without its three exits, iterated from the start state.
\<close>

definition mv :: "linear_operator \<Rightarrow> vec \<Rightarrow> vec" where
  "mv A w = (case op_matvec A w of Inl e \<Rightarrow> [] | Inr v \<Rightarrow> v)"

definition spd_operator :: "linear_operator \<Rightarrow> nat \<Rightarrow> bool" where
  "spd_operator A n \<longleftrightarrow>
     snd (shape A) = n \<and>
     (\<forall>u. length u = n \<longrightarrow> (\<exists>v. op_matvec A u = Inr v \<and> length v = n)) \<and>
     (\<forall>u v a b. length u = n \<and> length v = n \<longrightarrow>
        mv A (vadd (smul a u) (smul b v)) = vadd (smul a (mv A u)) (smul b (mv A v))) \<and>
     (\<forall>u v. length u = n \<and> length v = n \<longrightarrow> vdot (mv A u) v = vdot u (mv A v)) \<and>
     (\<forall>u. length u = n \<and> vdot u u \<noteq> 0 \<longrightarrow> 0 < vdot u (mv A u))"

fun cg_step :: "linear_operator \<Rightarrow> vec \<times> vec \<times> vec \<Rightarrow> vec \<times> vec \<times> vec" where
  "cg_step A (x, r, p) =
     (let Ap = mv A p;
          alpha = vdot r r / vdot p Ap;
          x' = vadd x (smul alpha p);
          r' = vsub r (smul alpha Ap);
          beta = vdot r' r' / vdot r r
      in (x', r', vadd r' (smul beta p)))"

definition cg_state :: "linear_operator \<Rightarrow> vec \<Rightarrow> vec \<Rightarrow> nat \<Rightarrow> vec \<times> vec \<times> vec" where
  "cg_state A x r k = (cg_step A ^^ k) (x, r, r)"

definition cg_x :: "linear_operator \<Rightarrow> vec \<Rightarrow> vec \<Rightarrow> nat \<Rightarrow> vec" where
  "cg_x A x r k = fst (cg_state A x r k)"

definition cg_r :: "linear_operator \<Rightarrow> vec \<Rightarrow> vec \<Rightarrow> nat \<Rightarrow> vec" where
  "cg_r A x r k = fst (snd (cg_state A x r k))"

definition cg_p :: "linear_operator \<Rightarrow> vec \<Rightarrow> vec \<Rightarrow> nat \<Rightarrow> vec" where
  "cg_p A x r k = snd (snd (cg_state A x r k))"

section \<open>Dense vectors\<close>

lemma length_vadd [simp]: "length (vadd u v) = min (length u) (length v)"
  by (simp add: vadd_def)

lemma length_vsub [simp]: "length (vsub u v) = min (length u) (length v)"
  by (simp add: vsub_def)

lemma length_smul [simp]: "length (smul a v) = length v"
  by (simp add: smul_def)

lemma nth_vadd [simp]: "i < length u \<Longrightarrow> i < length v \<Longrightarrow> vadd u v ! i = u ! i + v ! i"
  by (simp add: vadd_def)

lemma nth_vsub [simp]: "i < length u \<Longrightarrow> i < length v \<Longrightarrow> vsub u v ! i = u ! i - v ! i"
  by (simp add: vsub_def)

lemma nth_smul [simp]: "i < length v \<Longrightarrow> smul a v ! i = a * v ! i"
  by (simp add: smul_def)

lemma smul_one [simp]: "smul 1 u = u"
  by (induction u) (simp_all add: smul_def)

lemma vdot_sum: "length u = length v \<Longrightarrow> vdot u v = (\<Sum>i<length u. u ! i * v ! i)"
proof -
  assume l: "length u = length v"
  have "vdot u v = (\<Sum>i = 0..<length (map2 (*) u v). map2 (*) u v ! i)"
    unfolding vdot_def by (rule sum_list_sum_nth)
  also have "\<dots> = (\<Sum>i<length u. u ! i * v ! i)"
    using l by (simp add: atLeast0LessThan)
  finally show ?thesis .
qed

lemma vdot_commute: "vdot u v = vdot v u"
proof (induction u arbitrary: v)
  case Nil
  then show ?case by (simp add: vdot_def)
next
  case (Cons a u)
  then show ?case by (cases v) (simp_all add: vdot_def)
qed

lemma vdot_vadd_left:
  "length u = n \<Longrightarrow> length v = n \<Longrightarrow> length w = n \<Longrightarrow>
   vdot (vadd u v) w = vdot u w + vdot v w"
  by (simp add: vdot_sum sum.distrib [symmetric] algebra_simps)

lemma vdot_vsub_left:
  "length u = n \<Longrightarrow> length v = n \<Longrightarrow> length w = n \<Longrightarrow>
   vdot (vsub u v) w = vdot u w - vdot v w"
  by (simp add: vdot_sum sum_subtractf [symmetric] algebra_simps)

lemma vdot_smul_left:
  "length u = n \<Longrightarrow> length w = n \<Longrightarrow> vdot (smul a u) w = a * vdot u w"
  by (simp add: vdot_sum sum_distrib_left algebra_simps)

lemma vdot_vadd_right:
  "length u = n \<Longrightarrow> length v = n \<Longrightarrow> length w = n \<Longrightarrow>
   vdot w (vadd u v) = vdot w u + vdot w v"
  using vdot_vadd_left [of u n v w] by (simp add: vdot_commute)

lemma vdot_vsub_right:
  "length u = n \<Longrightarrow> length v = n \<Longrightarrow> length w = n \<Longrightarrow>
   vdot w (vsub u v) = vdot w u - vdot w v"
  using vdot_vsub_left [of u n v w] by (simp add: vdot_commute)

lemma vdot_smul_right:
  "length u = n \<Longrightarrow> length w = n \<Longrightarrow> vdot w (smul a u) = a * vdot w u"
  using vdot_smul_left [of u n w a] by (simp add: vdot_commute)

lemma vdot_zero_left: "\<forall>e\<in>set p. e = 0 \<Longrightarrow> vdot p q = 0"
proof (induction p arbitrary: q)
  case Nil
  then show ?case by (simp add: vdot_def)
next
  case (Cons a p)
  then show ?case by (cases q) (simp_all add: vdot_def)
qed

lemma vdot_self: "vdot r r = sum_list (map (\<lambda>x. x * x) r)"
  by (simp add: vdot_def zip_same_conv_map comp_def)

lemma vdot_self_nonneg: "0 \<le> vdot r r"
  unfolding vdot_self by (rule sum_list_nonneg) auto

lemma vdot_self_zero: "vdot r r = 0 \<Longrightarrow> \<forall>e\<in>set r. e = 0"
proof -
  assume "vdot r r = 0"
  then have "\<forall>x\<in>set (map (\<lambda>x. x * x) r). x = 0"
    unfolding vdot_self by (subst (asm) sum_list_nonneg_eq_0_iff) auto
  then show ?thesis by auto
qed

lemma vdot_nonzero_left: "vdot u w \<noteq> 0 \<Longrightarrow> vdot u u \<noteq> 0"
  using vdot_self_zero [of u] vdot_zero_left [of u w] by blast

lemma vadd_smul_zero: "\<forall>e\<in>set u. e = 0 \<Longrightarrow> \<forall>e\<in>set (vadd u (smul 0 p)). e = 0"
  by (auto simp: vadd_def smul_def set_zip)

lemma vsub_vadd_smul:
  assumes "length b = n" "length u = n" "length w = n"
  shows "vsub b (vadd u (smul a w)) = vsub (vsub b u) (smul a w)"
  using assms by (intro nth_equalityI) simp_all

lemma all_zero_vsub_eq:
  assumes "length u = n" "length v = n" "\<forall>e\<in>set (vsub u v). e = 0"
  shows "u = v"
proof (rule nth_equalityI)
  show "length u = length v" using assms by simp
  fix i assume i: "i < length u"
  then have "vsub u v ! i \<in> set (vsub u v)" using assms by (intro nth_mem) simp
  then have "vsub u v ! i = 0" using assms(3) by blast
  then show "u ! i = v ! i" using i assms by simp
qed

lemma vsub_as_combination: "length u = length v \<Longrightarrow> vsub u v = vadd (smul 1 u) (smul (- 1) v)"
  by (intro nth_equalityI) simp_all

lemma vsub_self_zero: "\<forall>e\<in>set (vadd (smul 1 b) (smul (- 1) b)). e = 0"
  by (auto simp: vadd_def smul_def set_zip)

section \<open>Sparse products\<close>

lemma row_sum_Nil [simp]: "row_sum [] w i = 0"
  by (simp add: row_sum_def)

lemma row_sum_Cons [simp]:
  "row_sum ((r, c, v) # es) w i = (if r = i then v * w ! c else 0) + row_sum es w i"
  by (simp add: row_sum_def)

lemma row_sum_entry:
  "list_all (\<lambda>(r, c, v). c < n) es \<Longrightarrow>
   row_sum es w i = (\<Sum>j<n. sum_list (map (\<lambda>(r, c, v). if r = i \<and> c = j then v else 0) es) * w ! j)"
proof (induction es)
  case Nil
  then show ?case by simp
next
  case (Cons e es)
  obtain r c v where e: "e = (r, c, v)" by (cases e)
  from Cons.prems e have c: "c < n" and rest: "list_all (\<lambda>(r, c, v). c < n) es" by auto
  have "(\<Sum>j<n. (if r = i \<and> c = j then v else 0) * w ! j) = (if r = i then v * w ! c else 0)"
  proof (cases "r = i")
    case True
    have "(\<Sum>j<n. (if c = j then v else 0) * w ! j) = (\<Sum>j<n. if c = j then v * w ! j else 0)"
      by (rule sum.cong) auto
    also have "\<dots> = v * w ! c" using c by simp
    finally show ?thesis using True by simp
  next
    case False
    then show ?thesis by simp
  qed
  then show ?case using Cons.IH [OF rest] e
    by (simp add: algebra_simps sum.distrib)
qed

lemma wf_sparse_cols: "wf_sparse X \<Longrightarrow> list_all (\<lambda>(r, c, v). c < ncols X) (entries X)"
  by (auto simp: wf_sparse_def list_all_iff)

lemma wf_sparse_T [simp]: "wf_sparse (sparse_T X) = wf_sparse X"
  by (auto simp: wf_sparse_def sparse_T_def list_all_iff)

lemma entry_row_sum:
  "wf_sparse X \<Longrightarrow> row_sum (entries X) w i = (\<Sum>j<ncols X. entry X i j * w ! j)"
  unfolding entry_def by (rule row_sum_entry) (rule wf_sparse_cols)

lemma entry_sparse_T [simp]: "entry (sparse_T X) j i = entry X i j"
proof -
  have "sum_list (map (\<lambda>(r, c, v). if r = j \<and> c = i then v else 0) (map (\<lambda>(r, c, v). (c, r, v)) es))
      = sum_list (map (\<lambda>(r, c, v). if r = i \<and> c = j then v else 0) es)" for es :: "(nat \<times> nat \<times> real) list"
    by (induction es) auto
  then show ?thesis by (simp add: entry_def sparse_T_def)
qed

lemma nrows_sparse_T [simp]: "nrows (sparse_T X) = ncols X"
  by (simp add: sparse_T_def)

lemma ncols_sparse_T [simp]: "ncols (sparse_T X) = nrows X"
  by (simp add: sparse_T_def)

lemma sparse_dot_entry:
  assumes "wf_sparse X" "length w = ncols X"
  shows "sparse_dot X w = Inr (map (\<lambda>i. \<Sum>j<ncols X. entry X i j * w ! j) [0..<nrows X])"
  using assms by (simp add: sparse_dot_def entry_row_sum)

lemma sparse_dot_mismatch: "length w \<noteq> ncols X \<Longrightarrow> sparse_dot X w = Inl DimensionMismatch"
  by (simp add: sparse_dot_def)

section \<open>Evaluation on concrete inputs\<close>

lemmas sparse_eval = csr_matrix_def sparse_dot_def row_sum_def sparse_T_def wf_sparse_def
  vadd_def vsub_def smul_def vdot_def upt_conv_Cons Let_def

lemmas driver_eval = matvec_def intercept_matvec_def ridge_operator_def intercept_operator_def
  LinearOperator_def op_apply_def np_diag_def np_matmul_def alpha_diag_def

lemmas scope_eval = lookup_def then_do_def as_matrix_def as_float_def as_array_def
  as_optional_array_def as_int_def as_function_def as_operator_def

lemmas solver_eval = cg_with_def solve_def solve_iters_def initial_guess_def eval_nat_numeral

section \<open>The implicit operator\<close>

lemma matvec_entry:
  assumes wf: "wf_sparse X" and len: "length w = ncols X"
  shows "matvec X alpha w =
         Inr (map (\<lambda>j. (\<Sum>i<nrows X. entry X i j * (\<Sum>k<ncols X. entry X i k * w ! k)) + alpha * w ! j)
                  [0..<ncols X])"
proof -
  let ?Xw = "map (\<lambda>i. \<Sum>k<ncols X. entry X i k * w ! k) [0..<nrows X]"
  have 1: "sparse_dot X w = Inr ?Xw"
    by (rule sparse_dot_entry [OF wf len])
  have 2: "sparse_dot (sparse_T X) ?Xw =
           Inr (map (\<lambda>j. \<Sum>i<nrows X. entry X i j * ?Xw ! i) [0..<ncols X])"
    using sparse_dot_entry [of "sparse_T X" ?Xw] wf by simp
  have 3: "(\<Sum>i<nrows X. entry X i j * ?Xw ! i)
         = (\<Sum>i<nrows X. entry X i j * (\<Sum>k<ncols X. entry X i k * w ! k))" for j
    by (rule sum.cong) simp_all
  have "vadd (map (\<lambda>j. \<Sum>i<nrows X. entry X i j * ?Xw ! i) [0..<ncols X]) (smul alpha w)
      = map (\<lambda>j. (\<Sum>i<nrows X. entry X i j * (\<Sum>k<ncols X. entry X i k * w ! k)) + alpha * w ! j)
            [0..<ncols X]"
    by (rule nth_equalityI) (simp_all add: len 3)
  then show ?thesis
    by (simp add: matvec_def 1 2)
qed

lemma matvec_mismatch: "length w \<noteq> ncols X \<Longrightarrow> matvec X alpha w = Inl DimensionMismatch"
  by (simp add: matvec_def sparse_dot_def)

lemma matvec_length:
  "matvec X alpha w = Inr v \<Longrightarrow> length w = ncols X \<and> length v = ncols X"
  by (auto simp: matvec_def sparse_dot_def split: if_splits sum.splits)

lemma matvec_error: "matvec X alpha w = Inl e \<Longrightarrow> e = DimensionMismatch"
  by (auto simp: matvec_def sparse_dot_def split: if_splits sum.splits)

text \<open>
  C9: for \<open>X = [[1,0],[0,2]]\<close> and \<open>alpha = 0\<close>, the implicit operator maps \<open>[1,1]\<close> to
  \<open>[1,4]\<close>.
\<close>

theorem matvec_example: "matvec (csr_matrix [[1, 0], [0, 2]]) 0 [1, 1] = Inr [1, 4]"
  by (simp add: matvec_def csr_matrix_def sparse_dot_def row_sum_def sparse_T_def vadd_def
      smul_def upt_conv_Cons)

lemma gram_entry_linear:
  assumes lu: "length u = ncols X" and lv: "length v = ncols X" and j: "j < ncols X"
  shows "(\<Sum>i<nrows X. entry X i j * (\<Sum>k<ncols X. entry X i k * vadd (smul a u) (smul b v) ! k))
           + alpha * vadd (smul a u) (smul b v) ! j
       = a * ((\<Sum>i<nrows X. entry X i j * (\<Sum>k<ncols X. entry X i k * u ! k)) + alpha * u ! j)
         + b * ((\<Sum>i<nrows X. entry X i j * (\<Sum>k<ncols X. entry X i k * v ! k)) + alpha * v ! j)"
proof -
  let ?w = "vadd (smul a u) (smul b v)"
  have inner: "(\<Sum>k<ncols X. entry X i k * ?w ! k)
             = a * (\<Sum>k<ncols X. entry X i k * u ! k) + b * (\<Sum>k<ncols X. entry X i k * v ! k)" for i
  proof -
    have "(\<Sum>k<ncols X. entry X i k * ?w ! k)
        = (\<Sum>k<ncols X. a * (entry X i k * u ! k) + b * (entry X i k * v ! k))"
      by (rule sum.cong) (simp_all add: lu lv algebra_simps)
    then show ?thesis by (simp add: sum.distrib sum_distrib_left)
  qed
  have "(\<Sum>i<nrows X. entry X i j * (\<Sum>k<ncols X. entry X i k * ?w ! k))
      = (\<Sum>i<nrows X. a * (entry X i j * (\<Sum>k<ncols X. entry X i k * u ! k))
                     + b * (entry X i j * (\<Sum>k<ncols X. entry X i k * v ! k)))"
    by (rule sum.cong) (simp_all add: inner algebra_simps)
  then show ?thesis using j
    by (simp add: sum.distrib sum_distrib_left lu lv algebra_simps)
qed

text \<open>
  C7 (as amended): in exact arithmetic the function the driver wraps in the linear
  operator is linear. For a well-formed sparse matrix and any two vectors of the
  operator's dimension, the product succeeds on both and on every linear combination of
  them, and the value at the combination is the same combination of the two values, all
  sums and products being those of the real numbers.
\<close>

theorem matvec_linear:
  assumes wf: "wf_sparse X" and lu: "length u = ncols X" and lv: "length v = ncols X"
  shows "\<exists>Au Av. matvec X alpha u = Inr Au \<and> matvec X alpha v = Inr Av \<and>
           matvec X alpha (vadd (smul a u) (smul b v)) = Inr (vadd (smul a Au) (smul b Av))"
proof -
  let ?f = "\<lambda>w j. (\<Sum>i<nrows X. entry X i j * (\<Sum>k<ncols X. entry X i k * w ! k)) + alpha * w ! j"
  let ?w = "vadd (smul a u) (smul b v)"
  have lw: "length ?w = ncols X" using lu lv by simp
  have "map (?f ?w) [0..<ncols X]
      = vadd (smul a (map (?f u) [0..<ncols X])) (smul b (map (?f v) [0..<ncols X]))"
    by (rule nth_equalityI) (simp_all add: gram_entry_linear [OF lu lv])
  then show ?thesis
    using matvec_entry [OF wf lu, of alpha] matvec_entry [OF wf lv, of alpha]
      matvec_entry [OF wf lw, of alpha]
    by simp
qed

theorem matvec_linear_witness:
  "wf_sparse (csr_matrix [[1, 0], [0, 2]]) \<and>
   length [1, 0 :: real] = ncols (csr_matrix [[1, 0], [0, 2]]) \<and>
   length [0, 1 :: real] = ncols (csr_matrix [[1, 0], [0, 2]]) \<and>
   matvec (csr_matrix [[1, 0], [0, 2]]) 3 [1, 0] = Inr [4, 0] \<and>
   matvec (csr_matrix [[1, 0], [0, 2]]) 3 [0, 1] = Inr [0, 7] \<and>
   matvec (csr_matrix [[1, 0], [0, 2]]) 3 (vadd (smul 2 [1, 0]) (smul 5 [0, 1])) =
     Inr (vadd (smul 2 [4, 0]) (smul 5 [0, 7]))"
proof -
  let ?X = "csr_matrix [[1, 0], [0, 2]]"
  have wf: "wf_sparse ?X" by (simp add: sparse_eval)
  have lu: "length [1, 0 :: real] = ncols ?X" by (simp add: sparse_eval)
  have lv: "length [0, 1 :: real] = ncols ?X" by (simp add: sparse_eval)
  have mu: "matvec ?X 3 [1, 0] = Inr [4, 0]" by (simp add: sparse_eval driver_eval)
  have mv: "matvec ?X 3 [0, 1] = Inr [0, 7]" by (simp add: sparse_eval driver_eval)
  from matvec_linear [OF wf lu lv, of 3 2 5] mu mv wf lu lv show ?thesis by auto
qed

lemma fl_row_sum_exact_aux:
  "foldl (\<lambda>acc (r, c, v). if r = i then acc + v * w ! c else acc) s es = s + row_sum es w i"
  by (induction es arbitrary: s) (auto simp: row_sum_def)

lemma fl_row_sum_exact: "fl_row_sum (\<lambda>x. x) es w i = row_sum es w i"
  using fl_row_sum_exact_aux [of i w 0 es] by (simp add: fl_row_sum_def)

lemma fl_sparse_dot_exact: "fl_sparse_dot (\<lambda>x. x) X w = sparse_dot X w"
  by (simp add: fl_sparse_dot_def sparse_dot_def fl_row_sum_exact)

lemma fl_matvec_exact: "fl_matvec (\<lambda>x. x) X alpha w = matvec X alpha w"
  by (simp add: fl_matvec_def matvec_def fl_sparse_dot_exact fl_vadd_def fl_smul_def vadd_def
      smul_def zip_map2 case_prod_unfold split: sum.splits)

lemma round64_at:
  assumes "2 ^ k \<le> \<bar>x\<bar>" "\<bar>x\<bar> < 2 ^ Suc k"
  shows "round64 x = of_int (round_half_even (x / 2 powi (int k - 52))) * 2 powi (int k - 52)"
proof -
  have pos: "0 < \<bar>x\<bar>" using assms(1) by (smt (verit) zero_less_power)
  have "\<lfloor>log 2 \<bar>x\<bar>\<rfloor> = int k"
    using assms pos by (subst floor_log_eq_powr_iff) (simp_all add: powr_realpow powr_add)
  then show ?thesis using pos by (simp add: round64_def Let_def)
qed

text \<open>
  C7 (as stated) fails in the arithmetic of the code. For \<open>X = [[1]]\<close>, \<open>alpha = 2\<close>,
  \<open>a = b = 1\<close>, \<open>u = [2 ^ 53]\<close> and \<open>v = [1]\<close>, all of them doubles, the sum
  \<open>a u + b v\<close> rounds to \<open>2 ^ 53\<close>, so that \<open>matvec(a u + b v)\<close> is \<open>3 * 2 ^ 53\<close>, while
  \<open>a matvec(u) + b matvec(v)\<close> is \<open>3 * 2 ^ 53 + 3\<close> rounded, which is \<open>3 * 2 ^ 53 + 4\<close>.
\<close>

theorem matvec_float64_counterexample:
  "fl_matvec round64 (csr_matrix [[1]]) 2
     (fl_vadd round64 (fl_smul round64 1 [9007199254740992]) (fl_smul round64 1 [1]))
     = Inr [27021597764222976] \<and>
   fl_matvec round64 (csr_matrix [[1]]) 2 [9007199254740992] = Inr [27021597764222976] \<and>
   fl_matvec round64 (csr_matrix [[1]]) 2 [1] = Inr [3] \<and>
   fl_vadd round64 (fl_smul round64 1 [27021597764222976]) (fl_smul round64 1 [3])
     = [27021597764222980] \<and>
   (Inr [27021597764222976] :: error + vec) \<noteq> Inr [27021597764222980]"
proof -
  have r: "round64 1 = 1" "round64 2 = 2" "round64 3 = 3"
    "round64 9007199254740992 = 9007199254740992"
    "round64 9007199254740993 = 9007199254740992"
    "round64 18014398509481984 = 18014398509481984"
    "round64 27021597764222976 = 27021597764222976"
    "round64 27021597764222979 = 27021597764222980"
    using round64_at [of 0 1] round64_at [of 1 2] round64_at [of 1 3]
      round64_at [of 53 9007199254740992] round64_at [of 53 9007199254740993]
      round64_at [of 54 18014398509481984] round64_at [of 54 27021597764222976]
      round64_at [of 54 27021597764222979]
    by (simp_all add: round_half_even_def Let_def)
  show ?thesis
    by (simp add: fl_matvec_def fl_sparse_dot_def fl_row_sum_def fl_vadd_def fl_smul_def
        csr_matrix_def sparse_T_def upt_conv_Cons Let_def r)
qed

section \<open>The ridge drivers\<close>

lemma shape_ridge_operator [simp]: "shape (ridge_operator X alpha) = (ncols X, ncols X)"
  by (simp add: ridge_operator_def LinearOperator_def Let_def)

lemma op_matvec_ridge_operator [simp]: "op_matvec (ridge_operator X alpha) = matvec X alpha"
  by (simp add: ridge_operator_def LinearOperator_def Let_def)

lemma shape_intercept_operator [simp]: "shape (intercept_operator Xb alpha) = (ncols Xb, ncols Xb)"
  by (simp add: intercept_operator_def LinearOperator_def Let_def)

lemma op_matvec_intercept_operator [simp]:
  "op_matvec (intercept_operator Xb alpha) = intercept_matvec Xb alpha (int (ncols Xb) - 1)"
  by (simp add: intercept_operator_def LinearOperator_def Let_def)

text \<open>
  C2: \<open>sparse_ridge\<close> builds an operator of shape \<open>(n_features, n_features)\<close> whose
  application to any \<open>w\<close> of length \<open>n_features\<close> is \<open>X\<^sup>T (X w) + alpha w\<close>, written out
  with the entries of the dense matrix that \<open>X\<close> denotes; it builds the right-hand side
  \<open>X\<^sup>T y\<close>; and what it returns is the solution that the solver gives for exactly this
  operator, this right-hand side and the caller's \<open>x0\<close>.
\<close>

theorem sparse_ridge_delegates:
  assumes wf: "wf_sparse X" and ly: "length y = nrows X"
  shows "shape (ridge_operator X alpha) = (ncols X, ncols X) \<and>
         (\<forall>w. length w = ncols X \<longrightarrow>
            op_apply (ridge_operator X alpha) w =
            Inr (map (\<lambda>j. (\<Sum>i<nrows X. entry X i j * (\<Sum>k<ncols X. entry X i k * w ! k)) + alpha * w ! j)
                     [0..<ncols X])) \<and>
         sparse_dot (sparse_T X) y = Inr (map (\<lambda>j. \<Sum>i<nrows X. entry X i j * y ! i) [0..<ncols X]) \<and>
         sparse_ridge cg X y alpha x0 =
           (case cg (ridge_operator X alpha)
                    (map (\<lambda>j. \<Sum>i<nrows X. entry X i j * y ! i) [0..<ncols X]) x0 of
              Inl e \<Rightarrow> Inl e
            | Inr (w_hat, info) \<Rightarrow> Inr w_hat)"
proof -
  have b: "sparse_dot (sparse_T X) y = Inr (map (\<lambda>j. \<Sum>i<nrows X. entry X i j * y ! i) [0..<ncols X])"
    using sparse_dot_entry [of "sparse_T X" y] wf ly by simp
  have A: "op_apply (ridge_operator X alpha) w =
           Inr (map (\<lambda>j. (\<Sum>i<nrows X. entry X i j * (\<Sum>k<ncols X. entry X i k * w ! k)) + alpha * w ! j)
                    [0..<ncols X])" if "length w = ncols X" for w
    using that by (simp add: op_apply_def matvec_entry [OF wf])
  have "sparse_ridge cg X y alpha x0 =
           (case cg (ridge_operator X alpha)
                    (map (\<lambda>j. \<Sum>i<nrows X. entry X i j * y ! i) [0..<ncols X]) x0 of
              Inl e \<Rightarrow> Inl e
            | Inr (w_hat, info) \<Rightarrow> Inr w_hat)"
    by (simp add: sparse_ridge_def b)
  with A b show ?thesis by simp
qed

theorem sparse_ridge_delegates_witness:
  "wf_sparse (csr_matrix [[1, 0], [0, 2]]) \<and>
   length [1, 0 :: real] = nrows (csr_matrix [[1, 0], [0, 2]]) \<and>
   op_apply (ridge_operator (csr_matrix [[1, 0], [0, 2]]) 0) [1, 1] = Inr [1, 4] \<and>
   sparse_dot (sparse_T (csr_matrix [[1, 0], [0, 2]])) [1, 0] = Inr [1, 0] \<and>
   sparse_ridge (cg_with (1 / 100000) 10) (csr_matrix [[1, 0], [0, 2]]) [1, 0] 0 None =
     (case cg_with (1 / 100000) 10 (ridge_operator (csr_matrix [[1, 0], [0, 2]]) 0) [1, 0] None of
        Inl e \<Rightarrow> Inl e | Inr (w_hat, info) \<Rightarrow> Inr w_hat) \<and>
   sparse_ridge (cg_with (1 / 100000) 10) (csr_matrix [[1, 0], [0, 2]]) [1, 0] 0 None = Inr [1, 0]"
proof -
  let ?X = "csr_matrix [[1, 0], [0, 2]]"
  have wf: "wf_sparse ?X" by (simp add: sparse_eval)
  have ly: "length [1, 0 :: real] = nrows ?X" by (simp add: sparse_eval)
  have n: "ncols ?X = 2" "nrows ?X = 2" by (simp_all add: sparse_eval)
  have b: "sparse_dot (sparse_T ?X) [1, 0] = Inr [1, 0]" by (simp add: sparse_eval)
  have a: "op_apply (ridge_operator ?X 0) [1, 1] = Inr [1, 4]"
    by (simp add: sparse_eval driver_eval)
  have r: "sparse_ridge (cg_with (1 / 100000) 10) ?X [1, 0] 0 None = Inr [1, 0]"
    by (simp add: sparse_ridge_def sparse_eval driver_eval solver_eval)
  from sparse_ridge_delegates [OF wf ly, of 0 "cg_with (1 / 100000) 10" None] a b r wf ly
  show ?thesis by simp
qed

lemma vdot_diag_row:
  assumes "j < n" "length d = n" "length w = n"
  shows "vdot (map (\<lambda>k. if j = k then d ! j else 0) [0..<n]) w = d ! j * w ! j"
proof -
  have "vdot (map (\<lambda>k. if j = k then d ! j else 0) [0..<n]) w
      = (\<Sum>k<n. (if j = k then d ! j else 0) * w ! k)"
    using assms by (simp add: vdot_sum)
  also have "\<dots> = (\<Sum>k<n. if j = k then d ! j * w ! k else 0)"
    by (rule sum.cong) auto
  also have "\<dots> = d ! j * w ! j"
    using assms by simp
  finally show ?thesis .
qed

lemma np_matmul_diag:
  assumes "length w = length d"
  shows "np_matmul (np_diag d) w = Inr (map (\<lambda>j. d ! j * w ! j) [0..<length d])"
proof -
  have "map (\<lambda>row. vdot row w) (np_diag d) = map (\<lambda>j. d ! j * w ! j) [0..<length d]"
    using assms by (intro nth_equalityI) (simp_all add: np_diag_def vdot_diag_row)
  then show ?thesis using assms by (simp add: np_matmul_def np_diag_def)
qed

lemma length_alpha_diag: "length (alpha_diag (int n - 1) alpha) = n"
  by (simp add: alpha_diag_def)

lemma nth_alpha_diag:
  "j < n \<Longrightarrow> alpha_diag (int n - 1) alpha ! j = (if j < n - 1 then alpha else 0)"
  by (auto simp: alpha_diag_def)

text \<open>
  C3: the operator of \<open>sparse_ridge_intercept\<close> applied to a vector \<open>w\<close> of length
  \<open>n_features + 1\<close> is \<open>Xb\<^sup>T (Xb w)\<close> plus \<open>alpha * w\<^sub>j\<close> at each of the first
  \<open>n_features\<close> coordinates and plus zero at the last one, the intercept.
\<close>

theorem intercept_operator_apply:
  assumes wf: "wf_sparse Xb" and lw: "length w = ncols Xb"
  shows "op_apply (intercept_operator Xb alpha) w =
         Inr (map (\<lambda>j. (\<Sum>i<nrows Xb. entry Xb i j * (\<Sum>k<ncols Xb. entry Xb i k * w ! k))
                        + (if j < ncols Xb - 1 then alpha else 0) * w ! j)
                  [0..<ncols Xb])"
proof -
  let ?n = "ncols Xb"
  let ?Xw = "map (\<lambda>i. \<Sum>k<?n. entry Xb i k * w ! k) [0..<nrows Xb]"
  let ?d = "alpha_diag (int ?n - 1) alpha"
  have 1: "sparse_dot Xb w = Inr ?Xw"
    by (rule sparse_dot_entry [OF wf lw])
  have 2: "sparse_dot (sparse_T Xb) ?Xw =
           Inr (map (\<lambda>j. \<Sum>i<nrows Xb. entry Xb i j * ?Xw ! i) [0..<?n])"
    using sparse_dot_entry [of "sparse_T Xb" ?Xw] wf by simp
  have 3: "np_matmul (np_diag ?d) w = Inr (map (\<lambda>j. ?d ! j * w ! j) [0..<?n])"
    using np_matmul_diag [of w ?d] lw by (simp add: length_alpha_diag)
  have 4: "(\<Sum>i<nrows Xb. entry Xb i j * ?Xw ! i)
         = (\<Sum>i<nrows Xb. entry Xb i j * (\<Sum>k<?n. entry Xb i k * w ! k))" for j
    by (rule sum.cong) simp_all
  have "vadd (map (\<lambda>j. \<Sum>i<nrows Xb. entry Xb i j * ?Xw ! i) [0..<?n])
             (map (\<lambda>j. ?d ! j * w ! j) [0..<?n])
      = map (\<lambda>j. (\<Sum>i<nrows Xb. entry Xb i j * (\<Sum>k<?n. entry Xb i k * w ! k))
                        + (if j < ?n - 1 then alpha else 0) * w ! j) [0..<?n]"
    by (rule nth_equalityI) (simp_all add: 4 nth_alpha_diag)
  then show ?thesis
    using lw by (simp add: op_apply_def intercept_matvec_def 1 2 3)
qed

theorem intercept_operator_apply_witness:
  "wf_sparse (csr_matrix [[1, 1], [2, 1]]) \<and>
   length [1, 1 :: real] = ncols (csr_matrix [[1, 1], [2, 1]]) \<and>
   op_apply (intercept_operator (csr_matrix [[1, 1], [2, 1]]) 10) [1, 1] = Inr [18, 5] \<and>
   op_apply (intercept_operator (csr_matrix [[1, 1], [2, 1]]) 0) [1, 1] = Inr [8, 5]"
proof -
  let ?X = "csr_matrix [[1, 1], [2, 1]]"
  have wf: "wf_sparse ?X" by (simp add: sparse_eval)
  have lw: "length [1, 1 :: real] = ncols ?X" by (simp add: sparse_eval)
  have n: "ncols ?X = 2" "nrows ?X = 2" by (simp_all add: sparse_eval)
  have e: "entry ?X 0 0 = 1" "entry ?X 0 (Suc 0) = 1" "entry ?X (Suc 0) 0 = 2"
    "entry ?X (Suc 0) (Suc 0) = 1"
    by (simp_all add: entry_def sparse_eval)
  have s2: "(\<Sum>i<2. f i) = f 0 + f (1::nat)" for f :: "nat \<Rightarrow> real"
    by (simp add: lessThan_Suc eval_nat_numeral)
  from intercept_operator_apply [OF wf lw, of 10] intercept_operator_apply [OF wf lw, of 0] wf lw
  show ?thesis
    by (simp add: n e s2 upt_conv_Cons)
qed

text \<open>
  C1 (as amended): whenever the solver returns a solution together with a status, the
  driver returns the solution alone: \<open>sparse_ridge\<close> the vector, and
  \<open>sparse_ridge_intercept\<close> the two entries of a two-entry solution. The status is not
  part of the value returned.
\<close>

theorem drivers_return_solution_only:
  "(sparse_dot (sparse_T X) y = Inr b \<and> cg (ridge_operator X alpha) b x0 = Inr (w, info)
      \<longrightarrow> sparse_ridge cg X y alpha x0 = Inr w) \<and>
   (sparse_dot (sparse_T Xb) y' = Inr b' \<and>
    cg' (intercept_operator Xb alpha') b' x0' = Inr ([w_hat, b_hat], info')
      \<longrightarrow> sparse_ridge_intercept cg' Xb y' alpha' x0' = Inr (w_hat, b_hat))"
  by (simp add: sparse_ridge_def sparse_ridge_intercept_def)

theorem drivers_return_solution_only_witness:
  "sparse_dot (sparse_T (csr_matrix [[1]])) [1] = Inr [1] \<and>
   cg_with (1 / 100000) 10 (ridge_operator (csr_matrix [[1]]) 0) [1] None = Inr ([1], Converged) \<and>
   sparse_ridge (cg_with (1 / 100000) 10) (csr_matrix [[1]]) [1] 0 None = Inr [1] \<and>
   sparse_dot (sparse_T (csr_matrix [[1, 0], [0, 1]])) [1, 0] = Inr [1, 0] \<and>
   cg_with (1 / 100000) 10 (intercept_operator (csr_matrix [[1, 0], [0, 1]]) 0) [1, 0] None
     = Inr ([1, 0], Converged) \<and>
   sparse_ridge_intercept (cg_with (1 / 100000) 10) (csr_matrix [[1, 0], [0, 1]]) [1, 0] 0 None
     = Inr (1, 0)"
proof -
  have 1: "sparse_dot (sparse_T (csr_matrix [[1]])) [1] = Inr [1]"
    by (simp add: sparse_eval)
  have 2: "cg_with (1 / 100000) 10 (ridge_operator (csr_matrix [[1]]) 0) [1] None
           = Inr ([1], Converged)"
    by (simp add: sparse_eval driver_eval solver_eval)
  have 3: "sparse_dot (sparse_T (csr_matrix [[1, 0], [0, 1]])) [1, 0] = Inr [1, 0]"
    by (simp add: sparse_eval)
  have 4: "cg_with (1 / 100000) 10 (intercept_operator (csr_matrix [[1, 0], [0, 1]]) 0) [1, 0] None
           = Inr ([1, 0], Converged)"
    by (simp add: sparse_eval driver_eval solver_eval)
  from drivers_return_solution_only [of "csr_matrix [[1]]" "[1]" "[1]" "cg_with (1 / 100000) 10"
      0 None "[1]" Converged "csr_matrix [[1, 0], [0, 1]]" "[1, 0]" "[1, 0]"
      "cg_with (1 / 100000) 10" 0 None 1 0 Converged] 1 2 3 4
  show ?thesis by simp
qed

text \<open>
  C1 (as stated) fails: two calls of \<open>sparse_ridge\<close> in which the solver ends with
  different statuses, \<open>Breakdown\<close> and \<open>Converged\<close>, return the same value, so the
  status cannot be read off the value returned.
\<close>

theorem status_dropped_counterexample:
  "solve (ridge_operator (csr_matrix [[1]]) 0) [1] (Some [1]) (1 / 100000) 10 = Inr ([1], Breakdown) \<and>
   sparse_ridge (cg_with (1 / 100000) 10) (csr_matrix [[1]]) [1] 0 (Some [1]) = Inr [1] \<and>
   solve (ridge_operator (csr_matrix [[1]]) 0) [1] None (1 / 100000) 10 = Inr ([1], Converged) \<and>
   sparse_ridge (cg_with (1 / 100000) 10) (csr_matrix [[1]]) [1] 0 None = Inr [1]"
  by (simp add: sparse_ridge_def sparse_eval driver_eval solver_eval)

lemma sparse_ridge_intercept_success:
  "sparse_ridge_intercept cg Xb y alpha x0 = Inr (w_hat, b_hat) \<Longrightarrow>
   \<exists>b info. sparse_dot (sparse_T Xb) y = Inr b \<and>
     cg (intercept_operator Xb alpha) b x0 = Inr ([w_hat, b_hat], info)"
  by (auto simp: sparse_ridge_intercept_def split: sum.splits list.splits)

lemma sparse_ridge_intercept_cases:
  assumes "sparse_dot (sparse_T Xb) y = Inr b"
    and "cg (intercept_operator Xb alpha) b x0 = Inr (sol, info)"
    and "length sol = ncols Xb"
  shows "(ncols Xb = 2 \<longrightarrow> sparse_ridge_intercept cg Xb y alpha x0 = Inr (sol ! 0, sol ! 1)) \<and>
         (ncols Xb \<noteq> 2 \<longrightarrow> sparse_ridge_intercept cg Xb y alpha x0 = Inl UnpackError) \<and>
         ((\<exists>res. sparse_ridge_intercept cg Xb y alpha x0 = Inr res) \<longleftrightarrow> ncols Xb = 2)"
proof (cases sol)
  case Nil
  with assms show ?thesis by (simp add: sparse_ridge_intercept_def)
next
  case (Cons a as)
  note c1 = Cons
  show ?thesis
  proof (cases as)
    case Nil
    with assms c1 show ?thesis by (simp add: sparse_ridge_intercept_def)
  next
    case (Cons a' as')
    with assms c1 show ?thesis
      by (cases as') (auto simp: sparse_ridge_intercept_def)
  qed
qed

text \<open>
  C10: \<open>sparse_ridge_intercept\<close> unpacks the solution into exactly two components. The
  call succeeds only when the solver has returned a solution of exactly two entries. When
  the solver returns a solution as long as the operator's dimension, the call succeeds
  if and only if \<open>Xb\<close> has exactly two columns; for every other number of columns, three
  or more among them, it fails with the unpacking error and returns no solution.
\<close>

theorem sparse_ridge_intercept_unpack:
  "(sparse_ridge_intercept cg Xb y alpha x0 = Inr (w_hat, b_hat) \<longrightarrow>
      (\<exists>b info. sparse_dot (sparse_T Xb) y = Inr b \<and>
         cg (intercept_operator Xb alpha) b x0 = Inr ([w_hat, b_hat], info))) \<and>
   (sparse_dot (sparse_T Xb) y = Inr b' \<and>
    cg (intercept_operator Xb alpha) b' x0 = Inr (sol, info') \<and> length sol = ncols Xb \<longrightarrow>
      (ncols Xb = 2 \<longrightarrow> sparse_ridge_intercept cg Xb y alpha x0 = Inr (sol ! 0, sol ! 1)) \<and>
      (ncols Xb \<noteq> 2 \<longrightarrow> sparse_ridge_intercept cg Xb y alpha x0 = Inl UnpackError) \<and>
      ((\<exists>res. sparse_ridge_intercept cg Xb y alpha x0 = Inr res) \<longleftrightarrow> ncols Xb = 2))"
proof (rule conjI)
  show "sparse_ridge_intercept cg Xb y alpha x0 = Inr (w_hat, b_hat) \<longrightarrow>
      (\<exists>b info. sparse_dot (sparse_T Xb) y = Inr b \<and>
         cg (intercept_operator Xb alpha) b x0 = Inr ([w_hat, b_hat], info))"
    by (rule impI) (rule sparse_ridge_intercept_success)
next
  show "sparse_dot (sparse_T Xb) y = Inr b' \<and>
    cg (intercept_operator Xb alpha) b' x0 = Inr (sol, info') \<and> length sol = ncols Xb \<longrightarrow>
      (ncols Xb = 2 \<longrightarrow> sparse_ridge_intercept cg Xb y alpha x0 = Inr (sol ! 0, sol ! 1)) \<and>
      (ncols Xb \<noteq> 2 \<longrightarrow> sparse_ridge_intercept cg Xb y alpha x0 = Inl UnpackError) \<and>
      ((\<exists>res. sparse_ridge_intercept cg Xb y alpha x0 = Inr res) \<longleftrightarrow> ncols Xb = 2)"
  proof (rule impI)
    assume h: "sparse_dot (sparse_T Xb) y = Inr b' \<and>
      cg (intercept_operator Xb alpha) b' x0 = Inr (sol, info') \<and> length sol = ncols Xb"
    then have 1: "sparse_dot (sparse_T Xb) y = Inr b'"
      and 2: "cg (intercept_operator Xb alpha) b' x0 = Inr (sol, info')"
      and 3: "length sol = ncols Xb" by simp_all
    show "(ncols Xb = 2 \<longrightarrow> sparse_ridge_intercept cg Xb y alpha x0 = Inr (sol ! 0, sol ! 1)) \<and>
        (ncols Xb \<noteq> 2 \<longrightarrow> sparse_ridge_intercept cg Xb y alpha x0 = Inl UnpackError) \<and>
        ((\<exists>res. sparse_ridge_intercept cg Xb y alpha x0 = Inr res) \<longleftrightarrow> ncols Xb = 2)"
      by (rule sparse_ridge_intercept_cases [of Xb y b' cg alpha x0 sol info', OF 1 2 3])
  qed
qed

theorem sparse_ridge_intercept_unpack_witness:
  "sparse_dot (sparse_T (csr_matrix [[1, 0, 0], [0, 1, 0], [0, 0, 1]])) [1, 0, 0] = Inr [1, 0, 0] \<and>
   cg_with (1 / 100000) 10 (intercept_operator (csr_matrix [[1, 0, 0], [0, 1, 0], [0, 0, 1]]) 0)
     [1, 0, 0] None = Inr ([1, 0, 0], Converged) \<and>
   length [1, 0, 0 :: real] = ncols (csr_matrix [[1, 0, 0], [0, 1, 0], [0, 0, 1]]) \<and>
   ncols (csr_matrix [[1, 0, 0], [0, 1, 0], [0, 0, 1]]) \<noteq> 2 \<and>
   sparse_ridge_intercept (cg_with (1 / 100000) 10) (csr_matrix [[1, 0, 0], [0, 1, 0], [0, 0, 1]])
     [1, 0, 0] 0 None = Inl UnpackError \<and>
   sparse_dot (sparse_T (csr_matrix [[1, 0], [0, 1]])) [1, 0] = Inr [1, 0] \<and>
   cg_with (1 / 100000) 10 (intercept_operator (csr_matrix [[1, 0], [0, 1]]) 0) [1, 0] None
     = Inr ([1, 0], Converged) \<and>
   length [1, 0 :: real] = ncols (csr_matrix [[1, 0], [0, 1]]) \<and>
   ncols (csr_matrix [[1, 0], [0, 1]]) = 2 \<and>
   sparse_ridge_intercept (cg_with (1 / 100000) 10) (csr_matrix [[1, 0], [0, 1]]) [1, 0] 0 None
     = Inr (1, 0)"
proof -
  let ?X3 = "csr_matrix [[1, 0, 0], [0, 1, 0], [0, 0, 1]]"
  let ?X2 = "csr_matrix [[1, 0], [0, 1]]"
  let ?cg = "cg_with (1 / 100000) 10 :: linear_operator \<Rightarrow> vec \<Rightarrow> vec option \<Rightarrow> error + vec \<times> status"
  have a1: "sparse_dot (sparse_T ?X3) [1, 0, 0] = Inr [1, 0, 0]"
    by (simp add: sparse_eval)
  have a2: "?cg (intercept_operator ?X3 0) [1, 0, 0] None = Inr ([1, 0, 0], Converged)"
    by (simp add: sparse_eval driver_eval solver_eval)
  have a3: "length [1, 0, 0 :: real] = ncols ?X3" by (simp add: sparse_eval)
  have a4: "ncols ?X3 \<noteq> 2" by (simp add: sparse_eval)
  have b1: "sparse_dot (sparse_T ?X2) [1, 0] = Inr [1, 0]"
    by (simp add: sparse_eval)
  have b2: "?cg (intercept_operator ?X2 0) [1, 0] None = Inr ([1, 0], Converged)"
    by (simp add: sparse_eval driver_eval solver_eval)
  have b3: "length [1, 0 :: real] = ncols ?X2" by (simp add: sparse_eval)
  have b4: "ncols ?X2 = 2" by (simp add: sparse_eval)
  have u3: "sparse_ridge_intercept ?cg ?X3 [1, 0, 0] 0 None = Inl UnpackError"
    using sparse_ridge_intercept_unpack [of ?cg ?X3 "[1, 0, 0]" 0 None 0 0 "[1, 0, 0]"
        "[1, 0, 0]" Converged] a1 a2 a3 a4
    by blast
  have u2: "sparse_ridge_intercept ?cg ?X2 [1, 0] 0 None = Inr ([1, 0] ! 0, [1, 0] ! 1)"
    using sparse_ridge_intercept_unpack [of ?cg ?X2 "[1, 0]" 0 None 0 0 "[1, 0]"
        "[1, 0]" Converged] b1 b2 b3 b4
    by blast
  from u3 u2 a1 a2 a3 a4 b1 b2 b3 b4 show ?thesis by simp
qed



lemma module_matvec_reads_module_state:
  "matvec_body Map.empty [''X'' \<mapsto> PyMatrix (csr_matrix [[1]]), ''alpha'' \<mapsto> PyFloat 0] [1]
     = (Inr [1] :: error + vec) \<and>
   matvec_body Map.empty [''X'' \<mapsto> PyMatrix (csr_matrix [[1]]), ''alpha'' \<mapsto> PyFloat 100] [1]
     = (Inr [101] :: error + vec) \<and>
   matvec_body Map.empty [''X'' \<mapsto> PyMatrix (csr_matrix [[1]])] [1] = Inl NameError"
  by (simp add: matvec_body_def scope_eval sparse_eval driver_eval)


section \<open>Failures and early exits of the solver\<close>

text \<open>
  C5: a vector whose length differs from the operator's dimension makes \<open>apply\<close> fail
  with \<open>DimensionMismatch\<close>; a right-hand side of the wrong length makes the solver fail
  with \<open>DimensionMismatch\<close> after zero iterations, and the failure carries no iterate. The
  function that \<open>sparse_ridge\<close> wraps in its operator fails in the same way by itself.
\<close>

theorem dimension_mismatch:
  "(length w \<noteq> snd (shape A) \<longrightarrow> op_apply A w = Inl DimensionMismatch) \<and>
   (length b \<noteq> snd (shape A) \<longrightarrow>
      solve_iters A b x0 tol max_iter = (Inl DimensionMismatch, 0) \<and>
      solve A b x0 tol max_iter = Inl DimensionMismatch) \<and>
   (length w' \<noteq> ncols X \<longrightarrow>
      matvec X alpha w' = Inl DimensionMismatch \<and>
      op_apply (ridge_operator X alpha) w' = Inl DimensionMismatch)"
  by (simp add: op_apply_def solve_iters_def solve_def matvec_mismatch)

theorem dimension_mismatch_witness:
  "length [1, 2, 3 :: real] \<noteq> snd (shape (ridge_operator (csr_matrix [[1, 0], [0, 2]]) 0)) \<and>
   length [1, 2, 3 :: real] \<noteq> ncols (csr_matrix [[1, 0], [0, 2]]) \<and>
   op_apply (ridge_operator (csr_matrix [[1, 0], [0, 2]]) 0) [1, 2, 3] = Inl DimensionMismatch \<and>
   solve_iters (ridge_operator (csr_matrix [[1, 0], [0, 2]]) 0) [1, 2, 3] None (1 / 100000) 10
     = (Inl DimensionMismatch, 0) \<and>
   solve (ridge_operator (csr_matrix [[1, 0], [0, 2]]) 0) [1, 2, 3] None (1 / 100000) 10
     = Inl DimensionMismatch \<and>
   matvec (csr_matrix [[1, 0], [0, 2]]) 0 [1, 2, 3] = Inl DimensionMismatch"
proof -
  have l: "length [1, 2, 3 :: real] \<noteq> snd (shape (ridge_operator (csr_matrix [[1, 0], [0, 2]]) 0))"
    by (simp add: sparse_eval)
  have l': "length [1, 2, 3 :: real] \<noteq> ncols (csr_matrix [[1, 0], [0, 2]])"
    by (simp add: sparse_eval)
  from dimension_mismatch [of "[1, 2, 3]" "ridge_operator (csr_matrix [[1, 0], [0, 2]]) 0"
      "[1, 2, 3]" None "1 / 100000" 10 "[1, 2, 3]" "csr_matrix [[1, 0], [0, 2]]" 0] l l'
  show ?thesis by simp
qed

lemma cg_loop_no_zero_division:
  assumes "\<forall>w. op_matvec A w \<noteq> Inl ZeroDivisionError"
    and "rs_old = 0 \<longrightarrow> (\<forall>e\<in>set p. e = 0)"
  shows "fst (cg_loop A tol k it x r p rs_old) \<noteq> Inl ZeroDivisionError"
  using assms(2)
proof (induction k arbitrary: it x r p rs_old)
  case 0
  then show ?case by simp
next
  case (Suc k)
  show ?case
  proof (cases "op_apply A p")
    case (Inl e)
    then have "e \<noteq> ZeroDivisionError"
      using assms(1) by (auto simp: op_apply_def split: if_splits)
    with Inl show ?thesis by simp
  next
    case (Inr Ap)
    show ?thesis
    proof (cases "vdot p Ap \<le> 0")
      case True
      with Inr show ?thesis by simp
    next
      case False
      then have nz: "rs_old \<noteq> 0"
        using Suc.prems vdot_zero_left [of p Ap] by auto
      let ?alpha = "rs_old / vdot p Ap"
      let ?r' = "vsub r (smul ?alpha Ap)"
      let ?rs = "vdot ?r' ?r'"
      let ?p' = "vadd ?r' (smul (?rs / rs_old) p)"
      have "?rs = 0 \<longrightarrow> (\<forall>e\<in>set ?p'. e = 0)"
      proof
        assume z: "?rs = 0"
        then have "\<forall>e\<in>set ?r'. e = 0" by (rule vdot_self_zero)
        then have "\<forall>e\<in>set (vadd ?r' (smul 0 p)). e = 0" by (rule vadd_smul_zero)
        then show "\<forall>e\<in>set ?p'. e = 0"
          using z by simp
      qed
      from Suc.IH [OF this] Inr False nz show ?thesis
        by (simp add: Let_def)
    qed
  qed
qed

lemma cg_loop_count: "snd (cg_loop A tol k it x r p rs_old) \<le> it + k"
proof (induction k arbitrary: it x r p rs_old)
  case 0
  then show ?case by simp
next
  case (Suc k)
  have "snd (cg_loop A tol k (Suc it) x' r' p' rs') \<le> Suc (it + k)" for x' r' p' rs'
    using Suc.IH [of "Suc it" x' r' p' rs'] by simp
  then show ?case
    by (simp add: Let_def split: sum.splits)
qed

text \<open>
  C4: when the loop reaches a direction \<open>p\<close> with \<open>p\<cdot>Ap \<le> 0\<close>, it ends at once with
  status \<open>Breakdown\<close> and the iterate it had, without counting another round. No solve
  divides by zero, provided the operator's function does not, and no solve runs for more
  than \<open>max_iter\<close> rounds.
\<close>

theorem breakdown_on_nonpositive_curvature:
  "(op_apply A p = Inr Ap \<and> vdot p Ap \<le> 0 \<longrightarrow>
      cg_loop A tol (Suc k) it x r p rs_old = (Inr (x, Breakdown), it)) \<and>
   ((\<forall>w. op_matvec A w \<noteq> Inl ZeroDivisionError) \<longrightarrow>
      solve A b x0 tol max_iter \<noteq> Inl ZeroDivisionError) \<and>
   snd (solve_iters A b x0 tol max_iter) \<le> nat max_iter"
proof (intro conjI impI)
  assume "op_apply A p = Inr Ap \<and> vdot p Ap \<le> 0"
  then show "cg_loop A tol (Suc k) it x r p rs_old = (Inr (x, Breakdown), it)"
    by simp
next
  assume nz: "\<forall>w. op_matvec A w \<noteq> Inl ZeroDivisionError"
  have "fst (cg_loop A tol n 0 x1 r r (vdot r r)) \<noteq> Inl ZeroDivisionError" for n x1 r
    by (rule cg_loop_no_zero_division [OF nz]) (simp add: vdot_self_zero)
  then show "solve A b x0 tol max_iter \<noteq> Inl ZeroDivisionError"
    using nz by (auto simp: solve_def solve_iters_def Let_def op_apply_def split: sum.splits)
next
  show "snd (solve_iters A b x0 tol max_iter) \<le> nat max_iter"
    using cg_loop_count [of A tol "nat max_iter" 0]
    by (auto simp: solve_iters_def Let_def split: sum.splits)
qed

theorem breakdown_on_nonpositive_curvature_witness:
  "op_apply (ridge_operator (csr_matrix [[0]]) 0) [1] = Inr [0] \<and>
   vdot [1] [0] \<le> 0 \<and>
   cg_loop (ridge_operator (csr_matrix [[0]]) 0) (1 / 100000) (Suc 9) 0 [0] [1] [1] 1
     = (Inr ([0], Breakdown), 0) \<and>
   solve (ridge_operator (csr_matrix [[0]]) 0) [1] None (1 / 100000) 10 = Inr ([0], Breakdown) \<and>
   solve (ridge_operator (csr_matrix [[0]]) 0) [1] None (1 / 100000) 10 \<noteq> Inl ZeroDivisionError \<and>
   snd (solve_iters (ridge_operator (csr_matrix [[0]]) 0) [1] None (1 / 100000) 10) \<le> nat 10"
proof -
  let ?A = "ridge_operator (csr_matrix [[0]]) 0"
  have a: "op_apply ?A [1] = Inr [0]" by (simp add: sparse_eval driver_eval)
  have c: "vdot [1] [0] \<le> 0" by (simp add: vdot_def)
  have nz: "\<forall>w. op_matvec ?A w \<noteq> Inl ZeroDivisionError"
    using matvec_error by fastforce
  have s: "solve ?A [1] None (1 / 100000) 10 = Inr ([0], Breakdown)"
    by (simp add: sparse_eval driver_eval solver_eval)
  from breakdown_on_nonpositive_curvature [of ?A "[1]" "[0]" "1 / 100000" 9 0 "[0]" "[1]" 1
      "[1]" None 10] a c nz s
  show ?thesis by simp
qed

section \<open>Orthogonal vectors\<close>

text \<open>At most \<open>n\<close> pairwise orthogonal non-zero vectors fit into dimension \<open>n\<close>.\<close>

lemma bessel_coordinate:
  fixes V :: "nat \<Rightarrow> nat \<Rightarrow> real" and N :: "nat \<Rightarrow> real"
  assumes orth: "\<And>i i'. i \<le> m \<Longrightarrow> i' \<le> m \<Longrightarrow>
                   (\<Sum>k<n. V i k * V i' k) = (if i = i' then N i else 0)"
    and pos: "\<And>i. i \<le> m \<Longrightarrow> 0 < N i"
    and j: "j < n"
  shows "(\<Sum>i\<le>m. V i j * V i j / N i) \<le> 1"
proof -
  define c where "c i = V i j / N i" for i
  define s where "s k = (\<Sum>i\<le>m. c i * V i k)" for k
  define S where "S = (\<Sum>i\<le>m. V i j * V i j / N i)"
  have sj: "s j = S"
    unfolding s_def S_def c_def by (rule sum.cong) simp_all
  have "(\<Sum>k<n. s k * s k) = (\<Sum>k<n. \<Sum>i\<le>m. \<Sum>i'\<le>m. (c i * c i') * (V i k * V i' k))"
    unfolding s_def by (rule sum.cong) (simp_all add: sum_product algebra_simps)
  also have "\<dots> = (\<Sum>i\<le>m. \<Sum>k<n. \<Sum>i'\<le>m. (c i * c i') * (V i k * V i' k))"
    by (rule sum.swap)
  also have "\<dots> = (\<Sum>i\<le>m. \<Sum>i'\<le>m. \<Sum>k<n. (c i * c i') * (V i k * V i' k))"
    by (rule sum.cong [OF refl]) (rule sum.swap)
  also have "\<dots> = (\<Sum>i\<le>m. \<Sum>i'\<le>m. (c i * c i') * (if i = i' then N i else 0))"
    by (intro sum.cong refl) (simp add: sum_distrib_left [symmetric] orth)
  also have "\<dots> = (\<Sum>i\<le>m. c i * c i * N i)"
  proof (intro sum.cong refl)
    fix i assume "i \<in> {..m}"
    have "(\<Sum>i'\<le>m. (c i * c i') * (if i = i' then N i else 0))
        = (\<Sum>i'\<le>m. if i = i' then c i * c i * N i else 0)"
      by (rule sum.cong) auto
    also have "\<dots> = c i * c i * N i"
      using \<open>i \<in> {..m}\<close> by simp
    finally show "(\<Sum>i'\<le>m. (c i * c i') * (if i = i' then N i else 0)) = c i * c i * N i" .
  qed
  also have "\<dots> = S"
    unfolding S_def c_def using pos by (intro sum.cong refl) (simp add: less_imp_neq [THEN not_sym])
  finally have ss: "(\<Sum>k<n. s k * s k) = S" .
  define d where "d k = (if k = j then 1 else 0 :: real)" for k
  have dd: "(\<Sum>k<n. d k * d k) = 1"
    unfolding d_def using j by (simp add: if_distrib [of "\<lambda>x. x * _"] cong: if_cong)
  have ds: "(\<Sum>k<n. d k * s k) = s j"
    unfolding d_def using j by (simp add: if_distrib [of "\<lambda>x. x * _"] cong: if_cong)
  have "0 \<le> (\<Sum>k<n. (d k - s k) * (d k - s k))"
    by (rule sum_nonneg) simp
  also have "(\<Sum>k<n. (d k - s k) * (d k - s k))
           = (\<Sum>k<n. d k * d k) - 2 * (\<Sum>k<n. d k * s k) + (\<Sum>k<n. s k * s k)"
    by (simp add: algebra_simps sum.distrib sum_subtractf sum_distrib_left)
  finally have "0 \<le> 1 - S"
    by (simp add: dd ds ss sj)
  then show ?thesis by (simp add: S_def)
qed

lemma orthogonal_bound:
  fixes v :: "nat \<Rightarrow> vec"
  assumes len: "\<And>i. i \<le> m \<Longrightarrow> length (v i) = n"
    and orth: "\<And>i i'. i \<le> m \<Longrightarrow> i' \<le> m \<Longrightarrow> i \<noteq> i' \<Longrightarrow> vdot (v i) (v i') = 0"
    and nz: "\<And>i. i \<le> m \<Longrightarrow> vdot (v i) (v i) \<noteq> 0"
  shows "m < n"
proof -
  define V where "V i k = v i ! k" for i k
  define N where "N i = vdot (v i) (v i)" for i
  have pos: "0 < N i" if "i \<le> m" for i
    using nz [OF that] vdot_self_nonneg [of "v i"] by (simp add: N_def)
  have G: "(\<Sum>k<n. V i k * V i' k) = (if i = i' then N i else 0)" if "i \<le> m" "i' \<le> m" for i i'
  proof -
    have "(\<Sum>k<n. V i k * V i' k) = vdot (v i) (v i')"
      using len [OF that(1)] len [OF that(2)] by (simp add: vdot_sum V_def)
    then show ?thesis using orth [OF that] by (auto simp: N_def)
  qed
  have "real (Suc m) = (\<Sum>i\<le>m. (\<Sum>k<n. V i k * V i k) / N i)"
    using pos by (simp add: G less_imp_neq [THEN not_sym])
  also have "\<dots> = (\<Sum>i\<le>m. \<Sum>k<n. V i k * V i k / N i)"
    by (simp add: sum_divide_distrib)
  also have "\<dots> = (\<Sum>k<n. \<Sum>i\<le>m. V i k * V i k / N i)"
    by (rule sum.swap)
  also have "\<dots> \<le> (\<Sum>k<n. 1)"
    by (rule sum_mono) (simp add: bessel_coordinate [OF G pos])
  also have "\<dots> = real n" by simp
  finally show ?thesis by simp
qed

section \<open>Conjugate gradient in exact arithmetic\<close>

lemma cg_orthogonality:
  fixes R P :: "nat \<Rightarrow> vec" and g :: "vec \<Rightarrow> vec"
  assumes lenR: "\<And>k. length (R k) = n"
    and lenP: "\<And>k. length (P k) = n"
    and leng: "\<And>u. length u = n \<Longrightarrow> length (g u) = n"
    and sym: "\<And>u v. length u = n \<Longrightarrow> length v = n \<Longrightarrow> vdot (g u) v = vdot u (g v)"
    and pd: "\<And>u. length u = n \<Longrightarrow> vdot u u \<noteq> 0 \<Longrightarrow> 0 < vdot u (g u)"
    and P0: "P 0 = R 0"
    and Rs: "\<And>k. R (Suc k) =
               vsub (R k) (smul (vdot (R k) (R k) / vdot (P k) (g (P k))) (g (P k)))"
    and Ps: "\<And>k. P (Suc k) =
               vadd (R (Suc k)) (smul (vdot (R (Suc k)) (R (Suc k)) / vdot (R k) (R k)) (P k))"
    and nz: "\<And>j. j < m \<Longrightarrow> vdot (R j) (R j) \<noteq> 0"
  shows "k \<le> m \<Longrightarrow>
         \<forall>j\<le>k. (\<forall>i<j. vdot (R i) (R j) = 0) \<and> (\<forall>i<j. vdot (P i) (g (P j)) = 0) \<and>
                (\<forall>i<j. vdot (P i) (R j) = 0) \<and> vdot (P j) (R j) = vdot (R j) (R j)"
proof (induction k)
  case 0
  then show ?case by (simp add: P0)
next
  case (Suc k)
  then have km: "k < m" by simp
  have IH: "\<forall>j\<le>k. (\<forall>i<j. vdot (R i) (R j) = 0) \<and> (\<forall>i<j. vdot (P i) (g (P j)) = 0) \<and>
                (\<forall>i<j. vdot (P i) (R j) = 0) \<and> vdot (P j) (R j) = vdot (R j) (R j)"
    using Suc.IH km by simp
  have lengP: "length (g (P i)) = n" for i
    by (rule leng [OF lenP])
  \<comment> \<open>curvature is positive at every index below \<open>m\<close> that the hypothesis covers\<close>
  have curv: "0 < vdot (P i) (g (P i))" if "i \<le> k" for i
  proof -
    have "vdot (P i) (R i) = vdot (R i) (R i)" using IH that by simp
    moreover have "vdot (R i) (R i) \<noteq> 0" using nz [of i] that km by simp
    ultimately have "vdot (P i) (P i) \<noteq> 0"
      using vdot_nonzero_left [of "P i" "R i"] by simp
    then show ?thesis by (rule pd [OF lenP])
  qed
  define al where "al i = vdot (R i) (R i) / vdot (P i) (g (P i))" for i
  define be where "be i = vdot (R (Suc i)) (R (Suc i)) / vdot (R i) (R i)" for i
  have al_nz: "al i \<noteq> 0" if "i \<le> k" for i
    using curv [OF that] nz [of i] that km by (simp add: al_def)
  have R_step: "vdot w (R (Suc i)) = vdot w (R i) - al i * vdot w (g (P i))"
    if "length w = n" for w i
    unfolding Rs [of i] al_def [symmetric]
    using that lenR [of i] lengP [of i]
    by (simp add: vdot_vsub_right [of _ n] vdot_smul_right [of _ n])
  have P_step: "vdot (P (Suc i)) w = vdot (R (Suc i)) w + be i * vdot (P i) w"
    if "length w = n" for w i
    unfolding Ps [of i] be_def [symmetric]
    using that lenR [of "Suc i"] lenP [of i]
    by (simp add: vdot_vadd_left [of _ n] vdot_smul_left [of _ n])
  have P_step_right: "vdot w (P (Suc i)) = vdot w (R (Suc i)) + be i * vdot w (P i)"
    if "length w = n" for w i
    using P_step [OF that, of i] by (simp add: vdot_commute)
  let ?w = "R (Suc k)"
  have c': "vdot (P i) ?w = 0" if "i \<le> k" for i
  proof (cases "i = k")
    case True
    have "vdot (P k) ?w = vdot (P k) (R k) - al k * vdot (P k) (g (P k))"
      by (rule R_step [OF lenP])
    also have "vdot (P k) (R k) = vdot (R k) (R k)" using IH by simp
    also have "vdot (R k) (R k) - al k * vdot (P k) (g (P k)) = 0"
      using curv [of k] by (simp add: al_def)
    finally show ?thesis using True by simp
  next
    case False
    then have ik: "i < k" using that by simp
    have "vdot (P i) ?w = vdot (P i) (R k) - al k * vdot (P i) (g (P k))"
      by (rule R_step [OF lenP])
    moreover have "vdot (P i) (R k) = 0" using IH ik by simp
    moreover have "vdot (P i) (g (P k)) = 0" using IH ik by simp
    ultimately show ?thesis by simp
  qed
  have a': "vdot (R i) ?w = 0" if "i \<le> k" for i
  proof (cases i)
    case 0
    then show ?thesis using c' [of 0] by (simp add: P0)
  next
    case (Suc i')
    then have "i' \<le> k" using that by simp
    have "vdot (P (Suc i')) ?w = vdot (R (Suc i')) ?w + be i' * vdot (P i') ?w"
      by (rule P_step [OF lenR])
    then show ?thesis
      using c' [OF that] c' [OF \<open>i' \<le> k\<close>] Suc by simp
  qed
  have d': "vdot (P (Suc k)) ?w = vdot ?w ?w"
    using P_step [OF lenR, of k "Suc k"] c' [of k] by simp
  have gw: "al i * vdot (g (P i)) ?w = vdot (R i) ?w - vdot (R (Suc i)) ?w" for i
    using R_step [OF lenR, of "Suc k" i] by (simp add: vdot_commute)
  have b': "vdot (P i) (g (P (Suc k))) = 0" if "i \<le> k" for i
  proof -
    have e: "vdot (P i) (g (P (Suc k))) = vdot (g (P i)) ?w + be k * vdot (g (P i)) (P k)"
      using sym [OF lenP lenP, of i "Suc k"] P_step_right [OF lengP, of i k] by simp
    show ?thesis
    proof (cases "i = k")
      case True
      have "al k * vdot (g (P k)) ?w = - vdot ?w ?w"
        using gw [of k] a' [of k] by simp
      then have "vdot (g (P k)) ?w = - vdot ?w ?w / al k"
        using al_nz [of k] by (simp add: field_simps)
      moreover have "vdot (g (P k)) (P k) = vdot (P k) (g (P k))"
        by (rule vdot_commute)
      ultimately have "vdot (P k) (g (P (Suc k))) =
          - vdot ?w ?w / al k + be k * vdot (P k) (g (P k))"
        using e True by simp
      also have "\<dots> = 0"
        using curv [of k] nz [OF km] by (simp add: al_def be_def field_simps)
      finally show ?thesis using True by simp
    next
      case False
      then have ik: "i < k" using that by simp
      have "al i * vdot (g (P i)) ?w = 0"
        using gw [of i] a' [of i] a' [of "Suc i"] ik by simp
      then have "vdot (g (P i)) ?w = 0"
        using al_nz [OF that] by simp
      moreover have "vdot (g (P i)) (P k) = 0"
        using sym [OF lenP lenP, of i k] IH ik by simp
      ultimately show ?thesis using e by simp
    qed
  qed
  show ?case
  proof (intro allI impI)
    fix j assume "j \<le> Suc k"
    show "(\<forall>i<j. vdot (R i) (R j) = 0) \<and> (\<forall>i<j. vdot (P i) (g (P j)) = 0) \<and>
          (\<forall>i<j. vdot (P i) (R j) = 0) \<and> vdot (P j) (R j) = vdot (R j) (R j)"
    proof (cases "j = Suc k")
      case True
      then show ?thesis using a' b' c' d' by (simp add: less_Suc_eq_le)
    next
      case False
      then have "j \<le> k" using \<open>j \<le> Suc k\<close> by simp
      then show ?thesis using IH by blast
    qed
  qed
qed

lemma cg_residual_vanishes:
  fixes R P :: "nat \<Rightarrow> vec" and g :: "vec \<Rightarrow> vec"
  assumes lenR: "\<And>k. length (R k) = n"
    and lenP: "\<And>k. length (P k) = n"
    and leng: "\<And>u. length u = n \<Longrightarrow> length (g u) = n"
    and sym: "\<And>u v. length u = n \<Longrightarrow> length v = n \<Longrightarrow> vdot (g u) v = vdot u (g v)"
    and pd: "\<And>u. length u = n \<Longrightarrow> vdot u u \<noteq> 0 \<Longrightarrow> 0 < vdot u (g u)"
    and P0: "P 0 = R 0"
    and Rs: "\<And>k. R (Suc k) =
               vsub (R k) (smul (vdot (R k) (R k) / vdot (P k) (g (P k))) (g (P k)))"
    and Ps: "\<And>k. P (Suc k) =
               vadd (R (Suc k)) (smul (vdot (R (Suc k)) (R (Suc k)) / vdot (R k) (R k)) (P k))"
  shows "\<exists>k\<le>n. vdot (R k) (R k) = 0"
proof (rule ccontr)
  assume "\<not> (\<exists>k\<le>n. vdot (R k) (R k) = 0)"
  then have nz: "vdot (R j) (R j) \<noteq> 0" if "j < Suc n" for j
    using that by auto
  have orth: "\<forall>j\<le>n. (\<forall>i<j. vdot (R i) (R j) = 0) \<and> (\<forall>i<j. vdot (P i) (g (P j)) = 0) \<and>
                (\<forall>i<j. vdot (P i) (R j) = 0) \<and> vdot (P j) (R j) = vdot (R j) (R j)"
    by (rule cg_orthogonality [where m = "Suc n" and k = n, OF lenR lenP leng sym pd P0 Rs Ps nz])
      simp_all
  have o: "vdot (R i) (R i') = 0" if "i \<le> n" "i' \<le> n" "i \<noteq> i'" for i i'
  proof (cases "i < i'")
    case True
    then show ?thesis using orth that by simp
  next
    case False
    then have "i' < i" using that by simp
    then have "vdot (R i') (R i) = 0" using orth that by simp
    then show ?thesis by (simp add: vdot_commute)
  qed
  have "n < n"
    by (rule orthogonal_bound [of n R n]) (simp_all add: lenR o nz)
  then show False by simp
qed

lemma cg_state_components: "cg_state A x r k = (cg_x A x r k, cg_r A x r k, cg_p A x r k)"
  by (simp add: cg_x_def cg_r_def cg_p_def)

lemma cg_state_Suc: "cg_state A x r (Suc k) = cg_step A (cg_state A x r k)"
  by (simp add: cg_state_def)

lemma cg_0 [simp]: "cg_x A x r 0 = x" "cg_r A x r 0 = r" "cg_p A x r 0 = r"
  by (simp_all add: cg_x_def cg_r_def cg_p_def cg_state_def)

lemma cg_x_Suc:
  "cg_x A x r (Suc k) =
     vadd (cg_x A x r k)
       (smul (vdot (cg_r A x r k) (cg_r A x r k) / vdot (cg_p A x r k) (mv A (cg_p A x r k)))
          (cg_p A x r k))"
  unfolding cg_x_def [of A x r "Suc k"] cg_state_Suc cg_state_components [of A x r k]
  by (simp add: Let_def)

lemma cg_r_Suc:
  "cg_r A x r (Suc k) =
     vsub (cg_r A x r k)
       (smul (vdot (cg_r A x r k) (cg_r A x r k) / vdot (cg_p A x r k) (mv A (cg_p A x r k)))
          (mv A (cg_p A x r k)))"
  unfolding cg_r_def [of A x r "Suc k"] cg_state_Suc cg_state_components [of A x r k]
  by (simp add: Let_def)

lemma cg_p_Suc:
  "cg_p A x r (Suc k) =
     vadd (cg_r A x r (Suc k))
       (smul (vdot (cg_r A x r (Suc k)) (cg_r A x r (Suc k)) / vdot (cg_r A x r k) (cg_r A x r k))
          (cg_p A x r k))"
  unfolding cg_r_Suc unfolding cg_p_def [of A x r "Suc k"] cg_state_Suc cg_state_components [of A x r k]
  by (simp add: Let_def)

lemma spd_apply:
  assumes "spd_operator A n" "length u = n"
  shows "op_apply A u = Inr (mv A u)" "length (mv A u) = n"
proof -
  from assms obtain v where v: "op_matvec A u = Inr v" "length v = n"
    unfolding spd_operator_def by blast
  from assms have s: "snd (shape A) = n" unfolding spd_operator_def by blast
  show "op_apply A u = Inr (mv A u)" using v s assms(2) by (simp add: op_apply_def mv_def)
  show "length (mv A u) = n" using v by (simp add: mv_def)
qed

lemma spd_linear_step:
  assumes "spd_operator A n" "length x = n" "length p = n"
  shows "mv A (vadd x (smul a p)) = vadd (mv A x) (smul a (mv A p))"
proof -
  from assms have "mv A (vadd (smul 1 x) (smul a p)) = vadd (smul 1 (mv A x)) (smul a (mv A p))"
    unfolding spd_operator_def by blast
  then show ?thesis by simp
qed

lemma spd_symmetric:
  "spd_operator A n \<Longrightarrow> length u = n \<Longrightarrow> length v = n \<Longrightarrow> vdot (mv A u) v = vdot u (mv A v)"
  unfolding spd_operator_def by blast

lemma spd_positive:
  "spd_operator A n \<Longrightarrow> length u = n \<Longrightarrow> vdot u u \<noteq> 0 \<Longrightarrow> 0 < vdot u (mv A u)"
  unfolding spd_operator_def by blast

lemma op_apply_Inr_length: "spd_operator A n \<Longrightarrow> op_apply A z = Inr b \<Longrightarrow> length z = n"
  by (auto simp: spd_operator_def op_apply_def split: if_splits)

lemma spd_solution_unique:
  assumes spd: "spd_operator A n" and x: "op_apply A x = Inr b" and z: "op_apply A z = Inr b"
  shows "z = x"
proof -
  have lx: "length x = n" and lz: "length z = n"
    using op_apply_Inr_length [OF spd] x z by simp_all
  have mx: "mv A x = b" using spd_apply(1) [OF spd lx] x by simp
  have mz: "mv A z = b" using spd_apply(1) [OF spd lz] z by simp
  let ?d = "vsub z x"
  have ld: "length ?d = n" using lx lz by simp
  have "mv A (vadd (smul 1 z) (smul (- 1) x)) = vadd (smul 1 (mv A z)) (smul (- 1) (mv A x))"
    using spd lx lz unfolding spd_operator_def by blast
  then have "mv A ?d = vadd (smul 1 b) (smul (- 1) b)"
    using vsub_as_combination [of z x] lx lz mx mz by simp
  then have "\<forall>e\<in>set (mv A ?d). e = 0"
    using vsub_self_zero [of b] by simp
  then have "vdot ?d (mv A ?d) = 0"
    using vdot_zero_left [of "mv A ?d" ?d] by (simp add: vdot_commute)
  then have "vdot ?d ?d = 0"
    using spd_positive [OF spd ld] by fastforce
  then have "\<forall>e\<in>set ?d. e = 0" by (rule vdot_self_zero)
  then show ?thesis by (rule all_zero_vsub_eq [OF lz lx])
qed

lemma cg_lengths:
  assumes spd: "spd_operator A n" and lx: "length x = n" and lr: "length r = n"
  shows "length (cg_x A x r k) = n \<and> length (cg_r A x r k) = n \<and> length (cg_p A x r k) = n"
proof (induction k)
  case 0
  then show ?case using lx lr by simp
next
  case (Suc k)
  then have l: "length (cg_x A x r k) = n" "length (cg_r A x r k) = n" "length (cg_p A x r k) = n"
    by simp_all
  have lA: "length (mv A (cg_p A x r k)) = n"
    by (rule spd_apply(2) [OF spd l(3)])
  have 1: "length (cg_x A x r (Suc k)) = n" unfolding cg_x_Suc using l by simp
  have 2: "length (cg_r A x r (Suc k)) = n" unfolding cg_r_Suc using l lA by simp
  have 3: "length (cg_p A x r (Suc k)) = n" unfolding cg_p_Suc using l 2 by simp
  from 1 2 3 show ?case by simp
qed

lemma cg_residual:
  assumes spd: "spd_operator A n" and lx: "length x = n" and lb: "length b = n"
  shows "cg_r A x (vsub b (mv A x)) k = vsub b (mv A (cg_x A x (vsub b (mv A x)) k))"
proof (induction k)
  case 0
  then show ?case by simp
next
  case (Suc k)
  let ?r = "vsub b (mv A x)"
  have lr: "length ?r = n" using spd_apply(2) [OF spd lx] lb by simp
  note l = cg_lengths [OF spd lx lr, of k]
  have lAx: "length (mv A (cg_x A x ?r k)) = n" using spd_apply(2) [OF spd] l by simp
  have lAp: "length (mv A (cg_p A x ?r k)) = n" using spd_apply(2) [OF spd] l by simp
  show ?case
    unfolding cg_r_Suc cg_x_Suc
    using spd_linear_step [OF spd, of "cg_x A x ?r k" "cg_p A x ?r k"] l Suc.IH
      vsub_vadd_smul [OF lb lAx lAp]
    by simp
qed

lemma cg_p_zero:
  "vdot (cg_r A x r k) (cg_r A x r k) = 0 \<Longrightarrow> \<forall>e\<in>set (cg_p A x r k). e = 0"
proof (cases k)
  case 0
  assume "vdot (cg_r A x r k) (cg_r A x r k) = 0"
  with 0 show ?thesis using vdot_self_zero [of r] by simp
next
  case (Suc k')
  assume z: "vdot (cg_r A x r k) (cg_r A x r k) = 0"
  then have "\<forall>e\<in>set (cg_r A x r (Suc k')). e = 0"
    using Suc vdot_self_zero by simp
  then have "\<forall>e\<in>set (vadd (cg_r A x r (Suc k')) (smul 0 (cg_p A x r k'))). e = 0"
    by (rule vadd_smul_zero)
  then show ?thesis
    using z Suc by (simp add: cg_p_Suc)
qed

lemma cg_curvature:
  assumes spd: "spd_operator A n" and lx: "length x = n" and lr: "length r = n"
    and nz: "\<And>i. i < m \<Longrightarrow> vdot (cg_r A x r i) (cg_r A x r i) \<noteq> 0"
    and j: "j < m"
  shows "0 < vdot (cg_p A x r j) (mv A (cg_p A x r j))"
proof -
  note l = cg_lengths [OF spd lx lr]
  have "\<forall>j'\<le>j. (\<forall>i<j'. vdot (cg_r A x r i) (cg_r A x r j') = 0) \<and>
           (\<forall>i<j'. vdot (cg_p A x r i) (mv A (cg_p A x r j')) = 0) \<and>
           (\<forall>i<j'. vdot (cg_p A x r i) (cg_r A x r j') = 0) \<and>
           vdot (cg_p A x r j') (cg_r A x r j') = vdot (cg_r A x r j') (cg_r A x r j')"
  proof (rule cg_orthogonality [where n = n and m = m])
    show "length (cg_r A x r k) = n" for k using l by simp
    show "length (cg_p A x r k) = n" for k using l by simp
    show "length (mv A u) = n" if "length u = n" for u by (rule spd_apply(2) [OF spd that])
    show "vdot (mv A u) v = vdot u (mv A v)" if "length u = n" "length v = n" for u v
      by (rule spd_symmetric [OF spd that])
    show "0 < vdot u (mv A u)" if "length u = n" "vdot u u \<noteq> 0" for u
      by (rule spd_positive [OF spd that])
    show "cg_p A x r 0 = cg_r A x r 0" by simp
    show "cg_r A x r (Suc k) = vsub (cg_r A x r k)
        (smul (vdot (cg_r A x r k) (cg_r A x r k) / vdot (cg_p A x r k) (mv A (cg_p A x r k)))
           (mv A (cg_p A x r k)))" for k
      by (rule cg_r_Suc)
    show "cg_p A x r (Suc k) = vadd (cg_r A x r (Suc k))
        (smul (vdot (cg_r A x r (Suc k)) (cg_r A x r (Suc k)) / vdot (cg_r A x r k) (cg_r A x r k))
           (cg_p A x r k))" for k
      by (rule cg_p_Suc)
    show "vdot (cg_r A x r i) (cg_r A x r i) \<noteq> 0" if "i < m" for i by (rule nz [OF that])
    show "j \<le> m" using j by simp
  qed
  then have "vdot (cg_p A x r j) (cg_r A x r j) = vdot (cg_r A x r j) (cg_r A x r j)" by simp
  then have "vdot (cg_p A x r j) (cg_p A x r j) \<noteq> 0"
    using nz [OF j] vdot_nonzero_left [of "cg_p A x r j" "cg_r A x r j"] by simp
  then show ?thesis using spd_positive [OF spd] l by simp
qed

lemma cg_first_zero:
  assumes spd: "spd_operator A n" and lx: "length x = n" and lr: "length r = n"
  shows "\<exists>ks\<le>n. vdot (cg_r A x r ks) (cg_r A x r ks) = 0 \<and>
           (\<forall>i<ks. vdot (cg_r A x r i) (cg_r A x r i) \<noteq> 0)"
proof -
  note l = cg_lengths [OF spd lx lr]
  have ex: "\<exists>k\<le>n. vdot (cg_r A x r k) (cg_r A x r k) = 0"
  proof (rule cg_residual_vanishes [where P = "cg_p A x r" and g = "mv A"])
    show "length (cg_r A x r k) = n" for k using l by simp
    show "length (cg_p A x r k) = n" for k using l by simp
    show "length (mv A u) = n" if "length u = n" for u by (rule spd_apply(2) [OF spd that])
    show "vdot (mv A u) v = vdot u (mv A v)" if "length u = n" "length v = n" for u v
      by (rule spd_symmetric [OF spd that])
    show "0 < vdot u (mv A u)" if "length u = n" "vdot u u \<noteq> 0" for u
      by (rule spd_positive [OF spd that])
    show "cg_p A x r 0 = cg_r A x r 0" by simp
    show "cg_r A x r (Suc k) = vsub (cg_r A x r k)
        (smul (vdot (cg_r A x r k) (cg_r A x r k) / vdot (cg_p A x r k) (mv A (cg_p A x r k)))
           (mv A (cg_p A x r k)))" for k
      by (rule cg_r_Suc)
    show "cg_p A x r (Suc k) = vadd (cg_r A x r (Suc k))
        (smul (vdot (cg_r A x r (Suc k)) (cg_r A x r (Suc k)) / vdot (cg_r A x r k) (cg_r A x r k))
           (cg_p A x r k))" for k
      by (rule cg_p_Suc)
  qed
  define ks where "ks = (LEAST k. vdot (cg_r A x r k) (cg_r A x r k) = 0)"
  from ex obtain k where k: "k \<le> n" "vdot (cg_r A x r k) (cg_r A x r k) = 0" by blast
  have z: "vdot (cg_r A x r ks) (cg_r A x r ks) = 0"
    unfolding ks_def by (rule LeastI [of _ k]) (rule k(2))
  have le: "ks \<le> k" unfolding ks_def by (rule Least_le) (rule k(2))
  have "vdot (cg_r A x r i) (cg_r A x r i) \<noteq> 0" if "i < ks" for i
    using not_less_Least [of i "\<lambda>k. vdot (cg_r A x r k) (cg_r A x r k) = 0"] that
    by (simp add: ks_def)
  with z le k(1) show ?thesis by (intro exI [of _ ks]) auto
qed

lemma cg_loop_run:
  assumes spd: "spd_operator A n" and lx: "length x = n" and lr: "length r = n"
    and zero: "vdot (cg_r A x r ks) (cg_r A x r ks) = 0"
    and nz: "\<And>i. i < ks \<Longrightarrow> vdot (cg_r A x r i) (cg_r A x r i) \<noteq> 0"
  shows "j \<le> ks \<Longrightarrow> ks \<le> j + fuel \<Longrightarrow>
         \<exists>k st. cg_loop A tol fuel j (cg_x A x r j) (cg_r A x r j) (cg_p A x r j)
                   (vdot (cg_r A x r j) (cg_r A x r j)) = (Inr (cg_x A x r k, st), k) \<and>
                 k \<le> ks \<and>
                 (k = ks \<or> (st = Converged \<and> sqrt (vdot (cg_r A x r k) (cg_r A x r k)) < tol))"
proof (induction fuel arbitrary: j)
  case 0
  then have "j = ks" by simp
  then show ?case by simp
next
  case (Suc fuel)
  note l = cg_lengths [OF spd lx lr, of j]
  have app: "op_apply A (cg_p A x r j) = Inr (mv A (cg_p A x r j))"
    using spd_apply(1) [OF spd] l by simp
  show ?case
  proof (cases "j = ks")
    case True
    then have "\<forall>e\<in>set (cg_p A x r j). e = 0"
      using zero cg_p_zero by simp
    then have "vdot (cg_p A x r j) (mv A (cg_p A x r j)) = 0"
      by (rule vdot_zero_left)
    then show ?thesis using app True by simp
  next
    case False
    then have j: "j < ks" using Suc.prems by simp
    have curv: "0 < vdot (cg_p A x r j) (mv A (cg_p A x r j))"
      by (rule cg_curvature [OF spd lx lr nz j])
    have rs: "vdot (cg_r A x r j) (cg_r A x r j) \<noteq> 0"
      by (rule nz [OF j])
    show ?thesis
    proof (cases "sqrt (vdot (cg_r A x r (Suc j)) (cg_r A x r (Suc j))) < tol")
      case True
      have "cg_loop A tol (Suc fuel) j (cg_x A x r j) (cg_r A x r j) (cg_p A x r j)
              (vdot (cg_r A x r j) (cg_r A x r j)) = (Inr (cg_x A x r (Suc j), Converged), Suc j)"
        using app curv True
        by (simp add: Let_def cg_x_Suc [symmetric] cg_r_Suc [symmetric])
      then show ?thesis using j True by auto
    next
      case False
      have "cg_loop A tol (Suc fuel) j (cg_x A x r j) (cg_r A x r j) (cg_p A x r j)
              (vdot (cg_r A x r j) (cg_r A x r j)) =
            cg_loop A tol fuel (Suc j) (cg_x A x r (Suc j)) (cg_r A x r (Suc j))
              (cg_p A x r (Suc j)) (vdot (cg_r A x r (Suc j)) (cg_r A x r (Suc j)))"
        using app curv False rs
        by (simp add: Let_def cg_x_Suc [symmetric] cg_r_Suc [symmetric] cg_p_Suc [symmetric])
      moreover have "Suc j \<le> ks" "ks \<le> Suc j + fuel"
        using j Suc.prems by simp_all
      ultimately show ?thesis using Suc.IH [of "Suc j"] by simp
    qed
  qed
qed

lemma mv_ridge_operator:
  assumes "wf_sparse X" "length u = ncols X"
  shows "mv (ridge_operator X alpha) u =
         map (\<lambda>j. (\<Sum>i<nrows X. entry X i j * (\<Sum>k<ncols X. entry X i k * u ! k)) + alpha * u ! j)
             [0..<ncols X]"
  using matvec_entry [OF assms, of alpha] by (simp add: mv_def)

lemma ridge_gram_form:
  assumes wf: "wf_sparse X" and lu: "length u = ncols X" and lv: "length v = ncols X"
  shows "vdot (mv (ridge_operator X alpha) u) v =
         (\<Sum>i<nrows X. (\<Sum>k<ncols X. entry X i k * u ! k) * (\<Sum>k<ncols X. entry X i k * v ! k))
         + alpha * vdot u v"
proof -
  let ?n = "ncols X" and ?m = "nrows X"
  let ?S = "\<lambda>w i. \<Sum>k<?n. entry X i k * w ! k"
  have "vdot (mv (ridge_operator X alpha) u) v
      = (\<Sum>j<?n. ((\<Sum>i<?m. entry X i j * ?S u i) + alpha * u ! j) * v ! j)"
    using lv by (simp add: mv_ridge_operator [OF wf lu] vdot_sum)
  also have "\<dots> = (\<Sum>j<?n. \<Sum>i<?m. ?S u i * (entry X i j * v ! j)) + alpha * (\<Sum>j<?n. u ! j * v ! j)"
    by (simp add: algebra_simps sum.distrib sum_distrib_left sum_distrib_right)
  also have "(\<Sum>j<?n. \<Sum>i<?m. ?S u i * (entry X i j * v ! j))
           = (\<Sum>i<?m. \<Sum>j<?n. ?S u i * (entry X i j * v ! j))"
    by (rule sum.swap)
  also have "\<dots> = (\<Sum>i<?m. ?S u i * ?S v i)"
    by (simp add: sum_distrib_left)
  also have "(\<Sum>j<?n. u ! j * v ! j) = vdot u v"
    using lu lv by (simp add: vdot_sum)
  finally show ?thesis .
qed

lemma ridge_operator_spd:
  assumes wf: "wf_sparse X" and pos: "0 < alpha"
  shows "spd_operator (ridge_operator X alpha) (ncols X)"
  unfolding spd_operator_def
proof (intro conjI allI impI)
  show "snd (shape (ridge_operator X alpha)) = ncols X" by simp
next
  fix u :: vec assume "length u = ncols X"
  then show "\<exists>v. op_matvec (ridge_operator X alpha) u = Inr v \<and> length v = ncols X"
    using matvec_entry [OF wf, of u alpha] by simp
next
  fix u v :: vec and a b :: real
  assume "length u = ncols X \<and> length v = ncols X"
  then have lu: "length u = ncols X" and lv: "length v = ncols X" by simp_all
  have lw: "length (vadd (smul a u) (smul b v)) = ncols X" using lu lv by simp
  show "mv (ridge_operator X alpha) (vadd (smul a u) (smul b v)) =
        vadd (smul a (mv (ridge_operator X alpha) u)) (smul b (mv (ridge_operator X alpha) v))"
    unfolding mv_ridge_operator [OF wf lu] mv_ridge_operator [OF wf lv] mv_ridge_operator [OF wf lw]
    by (rule nth_equalityI) (simp_all add: gram_entry_linear [OF lu lv])
next
  fix u v :: vec
  assume "length u = ncols X \<and> length v = ncols X"
  then have lu: "length u = ncols X" and lv: "length v = ncols X" by simp_all
  have "vdot u (mv (ridge_operator X alpha) v) = vdot (mv (ridge_operator X alpha) v) u"
    by (rule vdot_commute)
  then show "vdot (mv (ridge_operator X alpha) u) v = vdot u (mv (ridge_operator X alpha) v)"
    by (simp add: ridge_gram_form [OF wf lu lv] ridge_gram_form [OF wf lv lu]
        vdot_commute [of u v] mult.commute)
next
  fix u :: vec
  assume "length u = ncols X \<and> vdot u u \<noteq> 0"
  then have lu: "length u = ncols X" and nz: "vdot u u \<noteq> 0" by simp_all
  have "0 < vdot u u" using nz vdot_self_nonneg [of u] by simp
  then have "0 < alpha * vdot u u" using pos by simp
  moreover have "0 \<le> (\<Sum>i<nrows X. (\<Sum>k<ncols X. entry X i k * u ! k) * (\<Sum>k<ncols X. entry X i k * u ! k))"
    by (rule sum_nonneg) simp
  ultimately have "0 < vdot (mv (ridge_operator X alpha) u) u"
    by (simp add: ridge_gram_form [OF wf lu lu])
  then show "0 < vdot u (mv (ridge_operator X alpha) u)"
    by (simp add: vdot_commute)
qed

lemma cg_exact_iterate:
  assumes spd: "spd_operator A n" and lx: "length x = n" and lb: "length b = n"
  shows "\<exists>ks\<le>n. op_apply A (cg_x A x (vsub b (mv A x)) ks) = Inr b \<and>
           vdot (cg_r A x (vsub b (mv A x)) ks) (cg_r A x (vsub b (mv A x)) ks) = 0 \<and>
           (\<forall>i<ks. vdot (cg_r A x (vsub b (mv A x)) i) (cg_r A x (vsub b (mv A x)) i) \<noteq> 0)"
proof -
  let ?r = "vsub b (mv A x)"
  have lr: "length ?r = n" using spd_apply(2) [OF spd lx] lb by simp
  obtain ks where ks: "ks \<le> n" "vdot (cg_r A x ?r ks) (cg_r A x ?r ks) = 0"
    "\<forall>i<ks. vdot (cg_r A x ?r i) (cg_r A x ?r i) \<noteq> 0"
    using cg_first_zero [OF spd lx lr] by blast
  have lxk: "length (cg_x A x ?r ks) = n" using cg_lengths [OF spd lx lr] by simp
  have "cg_r A x ?r ks = vsub b (mv A (cg_x A x ?r ks))"
    by (rule cg_residual [OF spd lx lb])
  then have "\<forall>e\<in>set (vsub b (mv A (cg_x A x ?r ks))). e = 0"
    using ks(2) vdot_self_zero by simp
  then have "b = mv A (cg_x A x ?r ks)"
    by (rule all_zero_vsub_eq [OF lb spd_apply(2) [OF spd lxk]])
  then have "op_apply A (cg_x A x ?r ks) = Inr b"
    using spd_apply(1) [OF spd lxk] by simp
  with ks show ?thesis by blast
qed

text \<open>
  C6: for a symmetric positive-definite operator of dimension \<open>n\<close>, a right-hand side
  and a start of length \<open>n\<close>, the iterates of section 4.2 reach the exact solution of
  \<open>A x = b\<close> after at most \<open>n\<close> rounds. With a budget of at least \<open>n\<close> rounds the solver
  returns after at most \<open>n\<close> rounds, and what it returns is that exact solution, the only
  one, unless the tolerance test has accepted an earlier iterate, which needs \<open>tol > 0\<close>.
  With \<open>tol \<le> 0\<close> the iterate returned is always exact.
\<close>

theorem cg_exact_within_n_iterations:
  assumes spd: "spd_operator A n" and lb: "length b = n"
    and lx0: "length (initial_guess n x0) = n"
    and budget: "int n \<le> max_iter"
  shows "(\<exists>k\<le>n. op_apply A
            (cg_x A (initial_guess n x0) (vsub b (mv A (initial_guess n x0))) k) = Inr b) \<and>
         (\<exists>x st k. solve_iters A b x0 tol max_iter = (Inr (x, st), k) \<and> k \<le> n \<and>
           ((op_apply A x = Inr b \<and> (\<forall>z. op_apply A z = Inr b \<longrightarrow> z = x)) \<or>
            (st = Converged \<and> 0 < tol \<and>
             sqrt (vdot (vsub b (mv A x)) (vsub b (mv A x))) < tol)))"
proof (rule conjI)
  define x where "x = initial_guess n x0"
  have sh: "snd (shape A) = n" using spd unfolding spd_operator_def by blast
  have lx: "length x = n" using lx0 by (simp add: x_def)
  define r where "r = vsub b (mv A x)"
  have lr: "length r = n" using spd_apply(2) [OF spd lx] lb by (simp add: r_def)
  have start: "solve_iters A b x0 tol max_iter =
               cg_loop A tol (nat max_iter) 0 x r r (vdot r r)"
    using lb sh spd_apply(1) [OF spd lx]
    by (simp add: solve_iters_def x_def [symmetric] r_def Let_def)
  obtain ks where ks: "ks \<le> n" "vdot (cg_r A x r ks) (cg_r A x r ks) = 0"
    "\<And>i. i < ks \<Longrightarrow> vdot (cg_r A x r i) (cg_r A x r i) \<noteq> 0"
    and exact: "op_apply A (cg_x A x r ks) = Inr b"
    using cg_exact_iterate [OF spd lx lb] unfolding r_def by blast
  show "\<exists>k\<le>n. op_apply A
            (cg_x A (initial_guess n x0) (vsub b (mv A (initial_guess n x0))) k) = Inr b"
    using ks(1) exact unfolding r_def x_def by blast
  have fuel: "ks \<le> 0 + nat max_iter" using ks(1) budget by simp
  have "\<exists>k st. cg_loop A tol (nat max_iter) 0 (cg_x A x r 0) (cg_r A x r 0) (cg_p A x r 0)
                   (vdot (cg_r A x r 0) (cg_r A x r 0)) = (Inr (cg_x A x r k, st), k) \<and>
                 k \<le> ks \<and>
                 (k = ks \<or> (st = Converged \<and> sqrt (vdot (cg_r A x r k) (cg_r A x r k)) < tol))"
  proof (rule cg_loop_run [OF spd lx lr ks(2)])
    show "vdot (cg_r A x r i) (cg_r A x r i) \<noteq> 0" if "i < ks" for i
      by (rule ks(3) [OF that])
    show "0 \<le> ks" by simp
    show "ks \<le> 0 + nat max_iter" by (rule fuel)
  qed
  then obtain k st
    where run: "cg_loop A tol (nat max_iter) 0 x r r (vdot r r) = (Inr (cg_x A x r k, st), k)"
    and k: "k \<le> ks"
    and fin: "k = ks \<or> (st = Converged \<and> sqrt (vdot (cg_r A x r k) (cg_r A x r k)) < tol)"
    by auto
  have res: "cg_r A x r k = vsub b (mv A (cg_x A x r k))"
    unfolding r_def by (rule cg_residual [OF spd lx lb])
  have returned: "solve_iters A b x0 tol max_iter = (Inr (cg_x A x r k, st), k)"
    using start run by simp
  have kn: "k \<le> n" using k ks(1) by simp
  have "(op_apply A (cg_x A x r k) = Inr b \<and> (\<forall>z. op_apply A z = Inr b \<longrightarrow> z = cg_x A x r k)) \<or>
        (st = Converged \<and> 0 < tol \<and>
         sqrt (vdot (vsub b (mv A (cg_x A x r k))) (vsub b (mv A (cg_x A x r k)))) < tol)"
  proof (cases "k = ks")
    case True
    then have sol: "op_apply A (cg_x A x r k) = Inr b" using exact by simp
    have uniq: "\<forall>z. op_apply A z = Inr b \<longrightarrow> z = cg_x A x r k"
      using spd_solution_unique [OF spd sol] by blast
    show ?thesis by (rule disjI1) (rule conjI [OF sol uniq])
  next
    case False
    with fin have c: "st = Converged" "sqrt (vdot (cg_r A x r k) (cg_r A x r k)) < tol" by simp_all
    have "0 \<le> sqrt (vdot (cg_r A x r k) (cg_r A x r k))"
      by (rule real_sqrt_ge_zero) (rule vdot_self_nonneg)
    then have t: "0 < tol" using c(2) by (rule le_less_trans)
    have c2: "sqrt (vdot (vsub b (mv A (cg_x A x r k))) (vsub b (mv A (cg_x A x r k)))) < tol"
      using c(2) res by simp
    show ?thesis using c(1) t c2 by simp
  qed
  with returned kn
  show "\<exists>x st k. solve_iters A b x0 tol max_iter = (Inr (x, st), k) \<and> k \<le> n \<and>
           ((op_apply A x = Inr b \<and> (\<forall>z. op_apply A z = Inr b \<longrightarrow> z = x)) \<or>
            (st = Converged \<and> 0 < tol \<and>
             sqrt (vdot (vsub b (mv A x)) (vsub b (mv A x))) < tol))"
    by (intro exI [of _ "cg_x A x r k"] exI [of _ st] exI [of _ k] conjI)
qed

theorem cg_exact_within_n_iterations_witness:
  "spd_operator (ridge_operator (csr_matrix [[1, 0], [0, 2]]) 1) 2 \<and>
   length [2, 5 :: real] = 2 \<and>
   length (initial_guess 2 None) = 2 \<and>
   int 2 \<le> 10 \<and>
   solve_iters (ridge_operator (csr_matrix [[1, 0], [0, 2]]) 1) [2, 5] None 0 10
     = (Inr ([1, 1], Breakdown), 2) \<and>
   op_apply (ridge_operator (csr_matrix [[1, 0], [0, 2]]) 1) [1, 1] = Inr [2, 5]"
proof -
  let ?X = "csr_matrix [[1, 0], [0, 2]]"
  let ?A = "ridge_operator ?X 1"
  have wf: "wf_sparse ?X" by (simp add: sparse_eval)
  have n: "ncols ?X = 2" by (simp add: sparse_eval)
  have spd: "spd_operator ?A 2"
    using ridge_operator_spd [OF wf, of 1] n by simp
  have lb: "length [2, 5 :: real] = 2" by simp
  have lx0: "length (initial_guess 2 None) = 2" by (simp add: initial_guess_def)
  have budget: "int 2 \<le> 10" by simp
  have run: "solve_iters ?A [2, 5] None 0 10 = (Inr ([1, 1], Breakdown), 2)"
    by (simp add: sparse_eval driver_eval solver_eval)
  from cg_exact_within_n_iterations [OF spd lb lx0 budget, of 0]
  have "op_apply ?A [1, 1] = Inr [2, 5]"
    unfolding run by simp
  with spd run lx0 show ?thesis by simp
qed

end
